theory Spec2Isabelle
  imports Complex_Main
begin

section \<open>Dense real matrices\<close>

text \<open>
  The arrays of \<^verbatim>\<open>_rap_music.py\<close> are two-dimensional numpy arrays of floats. They are
  modelled as a shape together with the list of rows, over the real numbers: rounding is not
  modelled, but the values that numpy produces where real arithmetic has none (division by
  zero, square root of a negative number) are, see \<open>npf\<close> below.
\<close>

datatype mat = Mat (nrows: nat) (ncols: nat) (rows: "real list list")

definition mk :: "nat \<Rightarrow> nat \<Rightarrow> (nat \<Rightarrow> nat \<Rightarrow> real) \<Rightarrow> mat" where
  "mk r c f = Mat r c (map (\<lambda>i. map (\<lambda>j. f i j) [0..<c]) [0..<r])"

definition ent :: "mat \<Rightarrow> nat \<Rightarrow> nat \<Rightarrow> real" where
  "ent M i j = rows M ! i ! j"

definition wf :: "mat \<Rightarrow> bool" where
  "wf M \<longleftrightarrow> length (rows M) = nrows M \<and> (\<forall>r \<in> set (rows M). length r = ncols M)"

text \<open>
  \<^verbatim>\<open>np.dot(A, B)\<close> on two-dimensional arrays of matching inner dimension. Where the
  shapes come from the caller the program is modelled with \<open>np_dot\<close> below, which raises
  on a mismatch; the products of two-dimensional arrays inside the loop and inside
  \<^verbatim>\<open>_compute_subcorr\<close> and \<^verbatim>\<open>_compute_proj\<close> have matching shapes by
  construction.
\<close>

definition dot :: "mat \<Rightarrow> mat \<Rightarrow> mat" where
  "dot A B = mk (nrows A) (ncols B) (\<lambda>i j. \<Sum>k\<leftarrow>[0..<ncols A]. ent A i k * ent B k j)"

text \<open>
  \<^verbatim>\<open>np.dot(A, v)\<close> for a one-dimensional \<open>v\<close> that has as many components as
  \<open>A\<close> has columns: the result is one-dimensional. The program is modelled with
  \<open>np_dotv\<close> below, which raises on another length.
\<close>

definition dotv :: "mat \<Rightarrow> real list \<Rightarrow> real list" where
  "dotv A v = map (\<lambda>i. \<Sum>k\<leftarrow>[0..<ncols A]. ent A i k * v ! k) [0..<nrows A]"

text \<open>\<^verbatim>\<open>A.T.conjugate()\<close>: on real arrays the conjugate is the identity.\<close>

definition tr :: "mat \<Rightarrow> mat" where
  "tr A = mk (ncols A) (nrows A) (\<lambda>i j. ent A j i)"

definition identity :: "nat \<Rightarrow> mat" where
  "identity n = mk n n (\<lambda>i j. if i = j then 1 else 0)"

definition zeros :: "nat \<Rightarrow> nat \<Rightarrow> mat" where
  "zeros r c = mk r c (\<lambda>i j. 0)"

definition msub :: "mat \<Rightarrow> mat \<Rightarrow> mat" where
  "msub A B = mk (nrows A) (ncols A) (\<lambda>i j. ent A i j - ent B i j)"

text \<open>\<^verbatim>\<open>A[:, a:b]\<close> for \<open>0 \<le> a \<le> b\<close>; the stop is clipped to the width as Python does.\<close>

definition cols :: "mat \<Rightarrow> nat \<Rightarrow> nat \<Rightarrow> mat" where
  "cols A a b = mk (nrows A) (min b (ncols A) - a) (\<lambda>i j. ent A i (a + j))"

text \<open>\<^verbatim>\<open>A[:, a::s]\<close> for a positive step.\<close>

definition cols_step :: "mat \<Rightarrow> nat \<Rightarrow> nat \<Rightarrow> mat" where
  "cols_step A a s = mk (nrows A) ((ncols A - a + s - 1) div s) (\<lambda>i j. ent A i (a + s * j))"

text \<open>\<^verbatim>\<open>A[:, -1]\<close>, the last column as a one-dimensional array.\<close>

definition last_col :: "mat \<Rightarrow> real list" where
  "last_col A = map (\<lambda>i. ent A i (ncols A - 1)) [0..<nrows A]"

text \<open>The assignment \<^verbatim>\<open>A[:, k] = v\<close>.\<close>

definition set_col :: "mat \<Rightarrow> nat \<Rightarrow> real list \<Rightarrow> mat" where
  "set_col A k v = mk (nrows A) (ncols A) (\<lambda>i j. if j = k then v ! i else ent A i j)"

section \<open>numpy scalars\<close>

text \<open>
  A float that results from a division or a square root. numpy does not raise on
  \<^verbatim>\<open>0/0\<close>, \<^verbatim>\<open>a/0\<close> or \<^verbatim>\<open>sqrt\<close> of a negative number (it warns and
  continues): the result is \<^verbatim>\<open>nan\<close> or an infinity, and every comparison with
  \<^verbatim>\<open>nan\<close> is false. The only divisor in the program is a sum of squares, so a zero
  divisor is the positive zero.
\<close>

datatype npf = Fin real | PInf | NInf | NaN

definition np_div :: "real \<Rightarrow> real \<Rightarrow> npf" where
  "np_div a b =
     (if b \<noteq> 0 then Fin (a / b)
      else if a = 0 then NaN
      else if 0 < a then PInf else NInf)"

fun np_sqrt :: "npf \<Rightarrow> npf" where
  "np_sqrt (Fin x) = (if x < 0 then NaN else Fin (sqrt x))"
| "np_sqrt PInf = PInf"
| "np_sqrt NInf = NaN"
| "np_sqrt NaN = NaN"

fun np_gt :: "npf \<Rightarrow> npf \<Rightarrow> bool" where
  "np_gt (Fin x) (Fin y) = (y < x)"
| "np_gt (Fin x) NInf = True"
| "np_gt PInf (Fin y) = True"
| "np_gt PInf NInf = True"
| "np_gt _ _ = False"

section \<open>Errors and Python indexing\<close>

datatype error = ValueError | IndexError | NameError

text \<open>\<^verbatim>\<open>np.dot\<close> where the shapes come from the caller: a mismatch raises.\<close>

definition np_dot :: "mat \<Rightarrow> mat \<Rightarrow> error + mat" where
  "np_dot M N = (if ncols M = nrows N then Inr (dot M N) else Inl ValueError)"

text \<open>
  \<^verbatim>\<open>np.dot(A, v)\<close> for a two-dimensional \<open>A\<close> and a one-dimensional \<open>v\<close>
  that a library call has returned: a length other than the width of \<open>A\<close> raises.
\<close>

definition np_dotv :: "mat \<Rightarrow> real list \<Rightarrow> error + real list" where
  "np_dotv A v = (if ncols A = length v then Inr (dotv A v) else Inl ValueError)"

text \<open>
  Indexing with a list of integers, \<^verbatim>\<open>xs[idx]\<close>: an index \<open>i\<close> with
  \<open>-n \<le> i < 0\<close> counts from the end, an index outside \<open>-n \<le> i < n\<close> raises.
\<close>

definition py_index :: "nat \<Rightarrow> int \<Rightarrow> error + nat" where
  "py_index n i =
     (let j = (if i < 0 then int n + i else i)
      in if 0 \<le> j \<and> j < int n then Inr (nat j) else Inl IndexError)"

fun py_indices :: "nat \<Rightarrow> int list \<Rightarrow> error + nat list" where
  "py_indices n [] = Inr []"
| "py_indices n (i # is) =
     (case py_index n i of
        Inl e \<Rightarrow> Inl e
      | Inr j \<Rightarrow> (case py_indices n is of Inl e \<Rightarrow> Inl e | Inr js \<Rightarrow> Inr (j # js)))"

definition py_take :: "'a list \<Rightarrow> int list \<Rightarrow> error + 'a list" where
  "py_take xs idx =
     (case py_indices (length xs) idx of
        Inl e \<Rightarrow> Inl e
      | Inr js \<Rightarrow> Inr (map (\<lambda>j. xs ! j) js))"

text \<open>\<^verbatim>\<open>M[:, idx]\<close> with a list of integers.\<close>

definition take_cols :: "mat \<Rightarrow> int list \<Rightarrow> error + mat" where
  "take_cols M idx =
     (case py_indices (ncols M) idx of
        Inl e \<Rightarrow> Inl e
      | Inr js \<Rightarrow> Inr (mk (nrows M) (length js) (\<lambda>i j. ent M i (js ! j))))"

text \<open>\<^verbatim>\<open>M[:, s:]\<close> for any integer \<open>s\<close>: a slice never raises, it is clipped.\<close>

definition slice_from :: "mat \<Rightarrow> int \<Rightarrow> mat" where
  "slice_from M s =
     (let n = int (ncols M);
          a = (if s < 0 then max (n + s) 0 else min s n)
      in cols M (nat a) (ncols M))"

section \<open>The linear-algebra library\<close>

text \<open>
  \<^verbatim>\<open>scipy.linalg.eigh\<close>, \<^verbatim>\<open>np.linalg.qr\<close>, \<^verbatim>\<open>scipy.linalg.pinv\<close> and
  \<^verbatim>\<open>scipy.linalg.lstsq\<close> are not code of this repository: the program is modelled over
  any implementation of them. \<open>qr_reduced\<close> is the first component of
  \<^verbatim>\<open>np.linalg.qr(G, mode='reduced')\<close>, \<open>lstsq\<close> the first component of
  \<^verbatim>\<open>linalg.lstsq(A, b)\<close>. What a theorem needs of them is a hypothesis of that theorem.
  The program reads \<^verbatim>\<open>eig_vals[-1]\<close> and \<^verbatim>\<open>eig_vecs[:, -1]\<close>, which exist
  when the leadfield has at least one channel: every block that the loop passes on has
  \<open>w \<ge> 1\<close> columns, its orthonormal factor \<open>min(channels, w) \<ge> 1\<close>. The length
  of the orientation that comes out of them is not taken for granted: where the program
  multiplies a block with it, or reads its components, a length that does not fit raises.
\<close>

record linalg =
  eigh :: "mat \<Rightarrow> real list \<times> mat"
  qr_reduced :: "mat \<Rightarrow> mat"
  pinv :: "mat \<Rightarrow> mat"
  lstsq :: "mat \<Rightarrow> mat \<Rightarrow> mat"

section \<open>The program\<close>

subsection \<open>\<^verbatim>\<open>_compute_subcorr\<close>\<close>

definition compute_subcorr :: "linalg \<Rightarrow> mat \<Rightarrow> mat \<Rightarrow> npf \<times> real list" where
  "compute_subcorr la G phi_sig =
     (if ncols G = 1 then
        let Gh = tr G;
            phi_sigh = tr phi_sig;
            subcorr = dot (dot Gh phi_sig) (dot phi_sigh G)
        in (np_sqrt (np_div (ent subcorr 0 0) (ent (dot Gh G) 0 0)), [1])
      else
        let Ug = qr_reduced la G;
            Ugh = tr Ug;
            phi_sigh = tr phi_sig;
            subcorr = dot (dot Ugh phi_sig) (dot phi_sigh Ug);
            (eig_vals, eig_vecs) = eigh la subcorr
        in (np_sqrt (Fin (last eig_vals)), last_col eig_vecs))"

subsection \<open>\<^verbatim>\<open>_compute_proj\<close>\<close>

definition compute_proj :: "linalg \<Rightarrow> mat \<Rightarrow> mat" where
  "compute_proj la A =
     (let Ah = tr A;
          I = identity (nrows A)
      in msub I (dot (dot A (pinv la (dot Ah A))) Ah))"

subsection \<open>The greedy loop of \<^verbatim>\<open>_apply_rap_music\<close>\<close>

text \<open>The variables that the two nested loops update.\<close>

record rap_state =
  subcorr_max :: npf
  active_set :: "int list"
  A_topo :: mat
  G_proj :: mat
  phi_sig_proj :: mat

text \<open>
  The body of the inner loop, lines 102 to 108, for candidate \<open>i_source\<close> in round
  \<open>k\<close>. The product \<^verbatim>\<open>np.dot(Gk, ori)\<close> of line 108 raises when the orientation
  has not as many components as the block has columns, which is the case of a
  three-column block with fewer than three channels: its orthonormal factor has as many
  columns as there are channels, and so many components has the eigenvector.
\<close>

definition search_step ::
  "linalg \<Rightarrow> nat \<Rightarrow> nat \<Rightarrow> rap_state \<Rightarrow> nat \<Rightarrow> error + rap_state" where
  "search_step la n_orient k st i_source =
     (let Gk = cols (G_proj st) (n_orient * i_source) (n_orient * i_source + n_orient);
          (subcorr, ori) = compute_subcorr la Gk (phi_sig_proj st)
      in if np_gt subcorr (subcorr_max st)
         then (case np_dotv Gk ori of
                 Inl e \<Rightarrow> Inl e
               | Inr col \<Rightarrow>
                 Inr (st\<lparr>subcorr_max := subcorr,
                          active_set := (active_set st)[k := int i_source],
                          A_topo := set_col (A_topo st) k col\<rparr>))
         else Inr st)"

text \<open>The inner loop, lines 101 to 108, over the candidates in turn; an error ends it.\<close>

fun search_loop ::
  "linalg \<Rightarrow> nat \<Rightarrow> nat \<Rightarrow> nat list \<Rightarrow> rap_state \<Rightarrow> error + rap_state" where
  "search_loop la n_orient k [] st = Inr st"
| "search_loop la n_orient k (i # is) st =
     (case search_step la n_orient k st i of
        Inl e \<Rightarrow> Inl e
      | Inr st' \<Rightarrow> search_loop la n_orient k is st')"

text \<open>
  The log line of a free-orientation run, line 112, reads \<^verbatim>\<open>ori[0]\<close>,
  \<^verbatim>\<open>ori[1]\<close> and \<^verbatim>\<open>ori[2]\<close>, where \<^verbatim>\<open>ori\<close> is what the last pass
  of the inner loop has bound, the orientation of the last candidate: the name is unbound
  when there was no candidate, and an orientation of fewer than three components has no
  index \<open>2\<close>. The log line of line 110 reads \<^verbatim>\<open>active_set[k]\<close>, which exists.
\<close>

definition log_ori :: "linalg \<Rightarrow> nat \<Rightarrow> nat \<Rightarrow> rap_state \<Rightarrow> error + unit" where
  "log_ori la n_orient n_cand st =
     (if n_orient = 3 then
        (if n_cand = 0 then Inl NameError
         else
           let i_source = n_cand - 1;
               Gk = cols (G_proj st) (n_orient * i_source) (n_orient * i_source + n_orient);
               (subcorr, ori) = compute_subcorr la Gk (phi_sig_proj st)
           in if length ori < 3 then Inl IndexError else Inr ())
      else Inr ())"

text \<open>One round \<open>k\<close> of the outer loop, lines 100 to 116.\<close>

definition rap_round ::
  "linalg \<Rightarrow> nat \<Rightarrow> mat \<Rightarrow> mat \<Rightarrow> nat \<Rightarrow> rap_state \<Rightarrow> error + rap_state" where
  "rap_round la n_orient G phi_sig k st =
     (let n_cand = ncols G div n_orient
      in case search_loop la n_orient k [0..<n_cand] (st\<lparr>subcorr_max := Fin (- 1)\<rparr>) of
           Inl e \<Rightarrow> Inl e
         | Inr st1 \<Rightarrow>
           (case log_ori la n_orient n_cand st1 of
              Inl e \<Rightarrow> Inl e
            | Inr u \<Rightarrow>
              let projection = compute_proj la (cols (A_topo st1) 0 (k + 1))
              in Inr (st1\<lparr>G_proj := dot projection G,
                           phi_sig_proj := dot projection phi_sig\<rparr>)))"

fun rap_rounds ::
  "linalg \<Rightarrow> nat \<Rightarrow> mat \<Rightarrow> mat \<Rightarrow> nat list \<Rightarrow> rap_state \<Rightarrow> error + rap_state" where
  "rap_rounds la n_orient G phi_sig [] st = Inr st"
| "rap_rounds la n_orient G phi_sig (k # ks) st =
     (case rap_round la n_orient G phi_sig k st of
        Inl e \<Rightarrow> Inl e
      | Inr st' \<Rightarrow> rap_rounds la n_orient G phi_sig ks st')"

text \<open>
  Lines 89 and 90: the signal subspace, the eigenvectors of the \<open>r\<close> largest eigenvalues
  of the data covariance.
\<close>

definition signal_subspace :: "linalg \<Rightarrow> mat \<Rightarrow> int \<Rightarrow> mat" where
  "signal_subspace la dat r =
     (let (eig_values, eig_vectors) = eigh la (dot dat (tr dat))
      in slice_from eig_vectors (- r))"

text \<open>Lines 93 to 97: the variables before the first round.\<close>

definition init_state :: "mat \<Rightarrow> mat \<Rightarrow> nat \<Rightarrow> rap_state" where
  "init_state G phi_sig n =
     \<lparr>subcorr_max = Fin (- 1),
      active_set = replicate n (- 1),
      A_topo = zeros (nrows G) n,
      G_proj = G,
      phi_sig_proj = phi_sig\<rparr>"

text \<open>
  Lines 89 to 116. \<open>G\<close> is the whitened leadfield and \<open>dat\<close> the whitened recording.
  \<^verbatim>\<open>np.zeros\<close> raises on a negative dimension.
\<close>

definition rap_loop ::
  "linalg \<Rightarrow> bool \<Rightarrow> mat \<Rightarrow> mat \<Rightarrow> int \<Rightarrow> int \<Rightarrow> error + rap_state" where
  "rap_loop la is_free_ori G dat r n_sources =
     (let phi_sig = signal_subspace la dat r;
          n_orient = (if is_free_ori then 3 else 1)
      in if n_sources < 0 then Inl ValueError
         else rap_rounds la n_orient G phi_sig [0..<nat n_sources]
                (init_state G phi_sig (nat n_sources)))"

subsection \<open>\<^verbatim>\<open>_apply_rap_music\<close>\<close>

text \<open>
  What the function receives: \<open>is_free_ori\<close>, \<open>proj\<close>, \<open>vertno\<close> and \<open>G_fwd\<close> are what
  \<^verbatim>\<open>_prepare_beamformer_input\<close> returns, \<open>whitener\<close> what \<^verbatim>\<open>compute_whitener\<close>
  returns, \<open>info_projs\<close> the truth value of \<^verbatim>\<open>info['projs']\<close>.
\<close>

record rap_input =
  is_free_ori :: bool
  proj :: mat
  vertno :: "int list \<times> int list"
  G_fwd :: mat
  whitener :: mat
  info_projs :: bool
  data :: mat
  r :: int
  n_sources :: int
  pick_ori :: "string option"
  return_residual :: bool

text \<open>
  What it hands to \<^verbatim>\<open>_make_stc\<close> (the amplitudes and the vertices of the two
  hemispheres) and the explained data \<open>D\<close>, which is the empty list when no residual is asked for.
\<close>

record rap_output =
  sol :: mat
  vertices :: "int list \<times> int list"
  explained :: "mat option"

text \<open>
  The index arrays of lines 126 to 128, for a sorted active set and \<open>L\<close> the size of
  \<^verbatim>\<open>vertno[0]\<close>: \<^verbatim>\<open>active_set[active_set > L] - L\<close> into the vertices of the
  right hemisphere, \<^verbatim>\<open>active_set[active_set <= L]\<close> into those of the left.
\<close>

definition vertno1_index :: "int \<Rightarrow> int list \<Rightarrow> int list" where
  "vertno1_index L act = map (\<lambda>i. i - L) (filter (\<lambda>i. L < i) act)"

definition vertno0_index :: "int \<Rightarrow> int list \<Rightarrow> int list" where
  "vertno0_index L act = filter (\<lambda>i. i \<le> L) act"

text \<open>Lines 119 to 128.\<close>

definition finish :: "linalg \<Rightarrow> rap_input \<Rightarrow> mat \<Rightarrow> mat \<Rightarrow> rap_state \<Rightarrow> error + rap_output" where
  "finish la inp gain data_w st =
     (let sol = lstsq la (A_topo st) data_w;
          active_set = sort (active_set st);
          L = int (length (fst (vertno inp)))
      in case (if return_residual inp
               then (case take_cols gain active_set of
                       Inl e \<Rightarrow> Inl e
                     | Inr g \<Rightarrow> Inr (Some (dot g sol)))
               else Inr None) of
           Inl e \<Rightarrow> Inl e
         | Inr D \<Rightarrow>
           (case py_take (snd (vertno inp)) (vertno1_index L active_set) of
              Inl e \<Rightarrow> Inl e
            | Inr v1 \<Rightarrow>
              (case py_take (fst (vertno inp)) (vertno0_index L active_set) of
                 Inl e \<Rightarrow> Inl e
               | Inr v0 \<Rightarrow> Inr \<lparr>sol = sol, vertices = (v0, v1), explained = D\<rparr>)))"

definition apply_rap_music :: "linalg \<Rightarrow> rap_input \<Rightarrow> error + rap_output" where
  "apply_rap_music la inp =
     (let gain = G_fwd inp
      in case np_dot (whitener inp) (G_fwd inp) of
           Inl e \<Rightarrow> Inl e
         | Inr G \<Rightarrow>
           (case (if info_projs inp then np_dot (proj inp) (data inp) else Inr (data inp)) of
              Inl e \<Rightarrow> Inl e
            | Inr data1 \<Rightarrow>
              (case np_dot (whitener inp) data1 of
                 Inl e \<Rightarrow> Inl e
               | Inr data_w \<Rightarrow>
                 (let normal = (pick_ori inp = Some ''normal'');
                      G' = (if normal then cols_step G 2 3 else G);
                      free = (if normal then False else is_free_ori inp)
                  in case rap_loop la free G' data_w (r inp) (n_sources inp) of
                       Inl e \<Rightarrow> Inl e
                     | Inr st \<Rightarrow> finish la inp gain data_w st))))"

subsection \<open>\<^verbatim>\<open>rap_music\<close>\<close>

text \<open>
  The residual is the recording, restricted by \<^verbatim>\<open>pick_channels_evoked\<close> (not code of
  this file, the parameter \<open>pick\<close>), minus \<open>D\<close>.
\<close>

definition rap_music ::
  "linalg \<Rightarrow> (mat \<Rightarrow> mat) \<Rightarrow> rap_input \<Rightarrow> error + rap_output \<times> mat option" where
  "rap_music la pick inp =
     (case apply_rap_music la inp of
        Inl e \<Rightarrow> Inl e
      | Inr out \<Rightarrow>
        (if return_residual inp
         then (case explained out of
                 None \<Rightarrow> Inr (out, None)
               | Some D \<Rightarrow> Inr (out, Some (msub (pick (data inp)) D)))
         else Inr (out, None)))"

section \<open>Notions of linear algebra and the contracts of the library\<close>

text \<open>A scalar multiple, and the squared norm of a column.\<close>

definition smult :: "real \<Rightarrow> mat \<Rightarrow> mat" where
  "smult c M = mk (nrows M) (ncols M) (\<lambda>i j. c * ent M i j)"

definition nrm2 :: "mat \<Rightarrow> real" where
  "nrm2 x = ent (dot (tr x) x) 0 0"

text \<open>A one-dimensional array as a column.\<close>

definition col_mat :: "real list \<Rightarrow> mat" where
  "col_mat v = mk (length v) 1 (\<lambda>i j. v ! i)"

text \<open>
  The contract of \<^verbatim>\<open>scipy.linalg.pinv\<close>: \<open>X\<close> is the Moore-Penrose pseudoinverse
  of \<open>M\<close>, characterised by the four Penrose equations.
\<close>

definition moore_penrose :: "mat \<Rightarrow> mat \<Rightarrow> bool" where
  "moore_penrose M X \<longleftrightarrow>
     wf X \<and> nrows X = ncols M \<and> ncols X = nrows M
     \<and> dot (dot M X) M = M
     \<and> dot (dot X M) X = X
     \<and> tr (dot M X) = dot M X
     \<and> tr (dot X M) = dot X M"

text \<open>\<open>x\<close> is an eigenvector of \<open>M\<close> for the eigenvalue \<open>\<mu>\<close>.\<close>

definition eigenvector :: "mat \<Rightarrow> real \<Rightarrow> mat \<Rightarrow> bool" where
  "eigenvector M \<mu> x \<longleftrightarrow>
     wf x \<and> nrows x = ncols M \<and> ncols x = 1 \<and> nrm2 x \<noteq> 0 \<and> dot M x = smult \<mu> x"

text \<open>
  The contract of \<^verbatim>\<open>scipy.linalg.eigh\<close> on a symmetric \<open>M\<close>: the eigenvalues in
  ascending order, all of them, and in column \<open>j\<close> a unit eigenvector for the \<open>j\<close>-th.
\<close>

definition eigh_contract :: "mat \<Rightarrow> real list \<times> mat \<Rightarrow> bool" where
  "eigh_contract M res \<longleftrightarrow>
     length (fst res) = nrows M \<and> wf (snd res)
     \<and> nrows (snd res) = nrows M \<and> ncols (snd res) = nrows M
     \<and> sorted (fst res)
     \<and> (\<forall>j<nrows M. eigenvector M (fst res ! j) (cols (snd res) j (j + 1))
                     \<and> nrm2 (cols (snd res) j (j + 1)) = 1)
     \<and> (\<forall>\<mu> x. eigenvector M \<mu> x \<longrightarrow> \<mu> \<in> set (fst res))"

text \<open>
  The contract of \<^verbatim>\<open>np.linalg.qr(G, mode='reduced')[0]\<close>: \<open>Q\<close> has the shape of
  \<open>G\<close> and orthonormal columns, and \<open>G = Q R\<close> for an upper triangular \<open>R\<close>, which
  is then \<open>Q\<^sup>T G\<close>.
\<close>

definition upper_triangular :: "mat \<Rightarrow> bool" where
  "upper_triangular R \<longleftrightarrow>
     list_all (\<lambda>i. list_all (\<lambda>j. ent R i j = 0) [0..<min i (ncols R)]) [0..<nrows R]"

definition qr_contract :: "mat \<Rightarrow> mat \<Rightarrow> bool" where
  "qr_contract G Q \<longleftrightarrow>
     wf Q \<and> nrows Q = nrows G \<and> ncols Q = ncols G
     \<and> dot (tr Q) Q = identity (ncols G)
     \<and> upper_triangular (dot (tr Q) G)
     \<and> dot Q (dot (tr Q) G) = G"

section \<open>Auxiliary notions for the scan and the lookups\<close>

text \<open>
  The block of candidate \<open>i\<close>, the correlation that the inner loop computes for it in
  a state, and the column that it would record for it.
\<close>

definition block :: "nat \<Rightarrow> mat \<Rightarrow> nat \<Rightarrow> mat" where
  "block n_orient M i = cols M (n_orient * i) (n_orient * i + n_orient)"

definition corr :: "linalg \<Rightarrow> nat \<Rightarrow> rap_state \<Rightarrow> nat \<Rightarrow> npf" where
  "corr la n_orient st i = fst (compute_subcorr la (block n_orient (G_proj st) i) (phi_sig_proj st))"

definition topo :: "linalg \<Rightarrow> nat \<Rightarrow> rap_state \<Rightarrow> nat \<Rightarrow> real list" where
  "topo la n_orient st i =
     dotv (block n_orient (G_proj st) i)
       (snd (compute_subcorr la (block n_orient (G_proj st) i) (phi_sig_proj st)))"

text \<open>
  The orientation computed for candidate \<open>i\<close> has as many components as the block has
  columns, so that line 108 can multiply them.
\<close>

definition ori_fits :: "linalg \<Rightarrow> nat \<Rightarrow> rap_state \<Rightarrow> nat \<Rightarrow> bool" where
  "ori_fits la n_orient st i \<longleftrightarrow>
     length (snd (compute_subcorr la (block n_orient (G_proj st) i) (phi_sig_proj st)))
       = ncols (block n_orient (G_proj st) i)"

text \<open>
  What a pass of the inner loop that does not raise does to the variables, and the
  variables after such passes for the first \<open>n\<close> candidates.
\<close>

definition recorded :: "linalg \<Rightarrow> nat \<Rightarrow> nat \<Rightarrow> rap_state \<Rightarrow> nat \<Rightarrow> rap_state" where
  "recorded la n_orient k st i =
     (if np_gt (corr la n_orient st i) (subcorr_max st)
      then st\<lparr>subcorr_max := corr la n_orient st i,
              active_set := (active_set st)[k := int i],
              A_topo := set_col (A_topo st) k (topo la n_orient st i)\<rparr>
      else st)"

definition scanned :: "linalg \<Rightarrow> nat \<Rightarrow> nat \<Rightarrow> rap_state \<Rightarrow> nat \<Rightarrow> rap_state" where
  "scanned la n_orient k st n = foldl (recorded la n_orient k) st [0..<n]"

text \<open>
  The two possible outcomes of a scan of the first \<open>n\<close> candidates that starts with
  \<open>subcorr_max = -1\<close>: nothing was recorded, or candidate \<open>i\<close> is the recorded one.
\<close>

definition no_winner :: "linalg \<Rightarrow> nat \<Rightarrow> nat \<Rightarrow> rap_state \<Rightarrow> nat \<Rightarrow> rap_state \<Rightarrow> bool" where
  "no_winner la n_orient k st n st' \<longleftrightarrow>
     st' = st \<and> (\<forall>j<n. \<not> np_gt (corr la n_orient st j) (Fin (- 1)))"

definition winner :: "linalg \<Rightarrow> nat \<Rightarrow> nat \<Rightarrow> rap_state \<Rightarrow> nat \<Rightarrow> rap_state \<Rightarrow> nat \<Rightarrow> bool" where
  "winner la n_orient k st n st' i \<longleftrightarrow>
     i < n \<and> active_set st' = (active_set st)[k := int i]
     \<and> subcorr_max st' = corr la n_orient st i
     \<and> A_topo st' = set_col (A_topo st) k (topo la n_orient st i)
     \<and> G_proj st' = G_proj st \<and> phi_sig_proj st' = phi_sig_proj st
     \<and> np_gt (corr la n_orient st i) (Fin (- 1))
     \<and> (\<forall>j<i. corr la n_orient st j = NaN \<or> np_gt (corr la n_orient st i) (corr la n_orient st j))
     \<and> (\<forall>j<n. i < j \<longrightarrow> \<not> np_gt (corr la n_orient st j) (corr la n_orient st i))"

text \<open>
  Candidate \<open>i\<close> is the first of the \<open>n\<close> candidates to attain their maximal
  correlation: its correlation is above \<open>-1\<close>, above that of every earlier candidate
  that has one (a \<^verbatim>\<open>nan\<close> is no correlation) and not below that of a later one.
\<close>

definition first_max :: "linalg \<Rightarrow> nat \<Rightarrow> rap_state \<Rightarrow> nat \<Rightarrow> nat \<Rightarrow> bool" where
  "first_max la n_orient st n i \<longleftrightarrow>
     np_gt (corr la n_orient st i) (Fin (- 1))
     \<and> (\<forall>j<i. corr la n_orient st j = NaN \<or> np_gt (corr la n_orient st i) (corr la n_orient st j))
     \<and> (\<forall>j<n. i < j \<longrightarrow> \<not> np_gt (corr la n_orient st j) (corr la n_orient st i))"

text \<open>
  The library returns, for every block of \<open>w\<close> columns and \<open>m\<close> channels, an
  orientation of \<open>w\<close> components. For \<open>w = 1\<close> the orientation is
  \<^verbatim>\<open>np.ones(1)\<close> whatever the library does; for \<open>w = 3\<close> numpy and scipy
  return three components when \<open>m \<ge> 3\<close>.
\<close>

definition oris_fit :: "linalg \<Rightarrow> nat \<Rightarrow> nat \<Rightarrow> bool" where
  "oris_fit la w m \<longleftrightarrow>
     (\<forall>B phi. ncols B = w \<and> nrows B = m \<longrightarrow> length (snd (compute_subcorr la B phi)) = w)"

text \<open>
  \<^verbatim>\<open>xs[i]\<close> for an index within \<open>-n \<le> i < n\<close>, and the indices with which
  the three lookups of lines 124 to 128 go through.
\<close>

definition py_get :: "'a list \<Rightarrow> int \<Rightarrow> 'a" where
  "py_get xs i = xs ! nat (if i < 0 then int (length xs) + i else i)"

definition in_range :: "nat \<Rightarrow> int \<Rightarrow> bool" where
  "in_range n i \<longleftrightarrow> - int n \<le> i \<and> i < int n"

text \<open>The matrix whose eigendecomposition the free-orientation branch takes.\<close>

definition free_gram :: "linalg \<Rightarrow> mat \<Rightarrow> mat \<Rightarrow> mat" where
  "free_gram la G phi_sig =
     dot (dot (tr (qr_reduced la G)) phi_sig) (dot (tr phi_sig) (qr_reduced la G))"

section \<open>The pseudoinverse reading of the correlation\<close>

text \<open>
  The single-orientation correlation as C4 words it, for comparison with the code: the
  denominator \<open>G\<^sup>T G\<close> is not divided by, its pseudoinverse is multiplied with.
\<close>

definition compute_subcorr_pinv :: "linalg \<Rightarrow> mat \<Rightarrow> mat \<Rightarrow> npf \<times> real list" where
  "compute_subcorr_pinv la G phi_sig =
     (let Gh = tr G;
          phi_sigh = tr phi_sig;
          subcorr = dot (dot Gh phi_sig) (dot phi_sigh G)
      in (np_sqrt (Fin (ent (dot subcorr (pinv la (dot Gh G))) 0 0)), [1]))"

section \<open>A library instance for concrete runs\<close>

text \<open>
  To run the program on a concrete input the four library functions must be given. The
  instance below computes them exactly on the matrices that the concrete runs of this theory
  produce: the eigendecomposition of a diagonal matrix whose diagonal is ascending
  (eigenvalues the diagonal, eigenvectors the identity), the orthonormal factor of an upper
  triangular matrix with a nonnegative diagonal (the leading columns of the identity), the
  pseudoinverse of a diagonal matrix, and the least-squares solution
  \<open>(A\<^sup>T A)\<^sup>+ A\<^sup>T b\<close> for an \<open>A\<close> with orthogonal columns.
\<close>

definition eigh_diag :: "mat \<Rightarrow> real list \<times> mat" where
  "eigh_diag M = (map (\<lambda>i. ent M i i) [0..<nrows M], identity (nrows M))"

definition qr_triu :: "mat \<Rightarrow> mat" where
  "qr_triu M = mk (nrows M) (ncols M) (\<lambda>i j. if i = j then 1 else 0)"

definition pinv_diag :: "mat \<Rightarrow> mat" where
  "pinv_diag M =
     mk (nrows M) (ncols M) (\<lambda>i j. if i = j \<and> ent M i i \<noteq> 0 then 1 / ent M i i else 0)"

definition lstsq_orth :: "mat \<Rightarrow> mat \<Rightarrow> mat" where
  "lstsq_orth M b = dot (dot (pinv_diag (dot (tr M) M)) (tr M)) b"

definition la_ex :: linalg where
  "la_ex = \<lparr>eigh = eigh_diag, qr_reduced = qr_triu, pinv = pinv_diag, lstsq = lstsq_orth\<rparr>"

section \<open>Concrete inputs\<close>

text \<open>
  Run A: two channels, two fixed-orientation candidates with the topographies \<open>(1, 0)\<close>
  and \<open>(1, 1)\<close>, the recording the identity, \<open>r = 2\<close>, two sources. \<open>exA_mid\<close> is
  the state after the first round, \<open>exA_end\<close> after the second.
\<close>

abbreviation eye2 :: mat where
  "eye2 \<equiv> Mat 2 2 [[1, 0], [0, 1]]"

abbreviation exA_G :: mat where
  "exA_G \<equiv> Mat 2 2 [[1, 1], [0, 1]]"

abbreviation exA_mid :: rap_state where
  "exA_mid \<equiv> \<lparr>subcorr_max = Fin 1, active_set = [0, - 1], A_topo = Mat 2 2 [[1, 0], [0, 0]],
     G_proj = Mat 2 2 [[0, 0], [0, 1]], phi_sig_proj = Mat 2 2 [[0, 0], [0, 1]]\<rparr>"

abbreviation exA_end :: rap_state where
  "exA_end \<equiv> \<lparr>subcorr_max = Fin 1, active_set = [0, 1], A_topo = Mat 2 2 [[1, 0], [0, 1]],
     G_proj = Mat 2 2 [[0, 0], [0, 0]], phi_sig_proj = Mat 2 2 [[0, 0], [0, 0]]\<rparr>"

abbreviation exA_inp :: rap_input where
  "exA_inp \<equiv> \<lparr>is_free_ori = False, proj = eye2, vertno = ([3, 4], []),
     G_fwd = exA_G, whitener = eye2, info_projs = False, data = eye2,
     r = 2, n_sources = 2, pick_ori = None, return_residual = True\<rparr>"

text \<open>
  Run B: three channels, three fixed-orientation candidates with collinear topographies,
  three left-hemisphere vertices, the recording the identity, \<open>r = 3\<close>, three sources.
\<close>

abbreviation eye3 :: mat where
  "eye3 \<equiv> Mat 3 3 [[1, 0, 0], [0, 1, 0], [0, 0, 1]]"

abbreviation exB_G :: mat where
  "exB_G \<equiv> Mat 3 3 [[1, 2, 3], [0, 0, 0], [0, 0, 0]]"

abbreviation exB_inp :: rap_input where
  "exB_inp \<equiv> \<lparr>is_free_ori = False, proj = eye3, vertno = ([11, 12, 13], []),
     G_fwd = exB_G, whitener = eye3, info_projs = False, data = eye3,
     r = 3, n_sources = 3, pick_ori = None, return_residual = True\<rparr>"

abbreviation exB_mid :: rap_state where
  "exB_mid \<equiv> \<lparr>subcorr_max = Fin 1, active_set = [0, - 1, - 1],
     A_topo = Mat 3 3 [[1, 0, 0], [0, 0, 0], [0, 0, 0]],
     G_proj = Mat 3 3 [[0, 0, 0], [0, 0, 0], [0, 0, 0]],
     phi_sig_proj = Mat 3 3 [[0, 0, 0], [0, 1, 0], [0, 0, 1]]\<rparr>"

abbreviation exB_end :: rap_state where
  "exB_end \<equiv> \<lparr>subcorr_max = Fin (- 1), active_set = [0, - 1, - 1],
     A_topo = Mat 3 3 [[1, 0, 0], [0, 0, 0], [0, 0, 0]],
     G_proj = Mat 3 3 [[0, 0, 0], [0, 0, 0], [0, 0, 0]],
     phi_sig_proj = Mat 3 3 [[0, 0, 0], [0, 1, 0], [0, 0, 1]]\<rparr>"

text \<open>
  Run C: two channels, a single fixed-orientation candidate, one left-hemisphere vertex,
  and a request for two sources with \<open>r = 3\<close>.
\<close>

abbreviation exC_inp :: rap_input where
  "exC_inp \<equiv> \<lparr>is_free_ori = False, proj = eye2, vertno = ([7], []),
     G_fwd = Mat 2 1 [[1], [0]], whitener = eye2, info_projs = False, data = eye2,
     r = 3, n_sources = 2, pick_ori = None, return_residual = True\<rparr>"

text \<open>
  Run D: three channels, one free-orientation candidate whose three columns are the unit
  vectors, a recording of one sample that lies along the third of them, \<open>r = 1\<close>, one
  source, and the residual asked for.
\<close>

abbreviation exD_inp :: rap_input where
  "exD_inp \<equiv> \<lparr>is_free_ori = True, proj = eye3, vertno = ([5], []),
     G_fwd = eye3, whitener = eye3, info_projs = False, data = Mat 3 1 [[0], [0], [1]],
     r = 1, n_sources = 1, pick_ori = None, return_residual = True\<rparr>"

abbreviation exD_end :: rap_state where
  "exD_end \<equiv> \<lparr>subcorr_max = Fin 1, active_set = [0], A_topo = Mat 3 1 [[0], [0], [1]],
     G_proj = Mat 3 3 [[1, 0, 0], [0, 1, 0], [0, 0, 0]],
     phi_sig_proj = Mat 3 1 [[0], [0], [0]]\<rparr>"

text \<open>
  Two left-hemisphere and two right-hemisphere vertices, and two active sets for them: one
  with the indices \<open>3\<close> and \<open>0\<close> in this order of discovery, one with the index
  \<open>2\<close>, the number of left-hemisphere vertices.
\<close>

abbreviation exH_inp :: rap_input where
  "exH_inp \<equiv> \<lparr>is_free_ori = False, proj = eye2, vertno = ([10, 20], [30, 40]),
     G_fwd = eye2, whitener = eye2, info_projs = False, data = eye2,
     r = 2, n_sources = 2, pick_ori = None, return_residual = False\<rparr>"

abbreviation exH_found :: rap_state where
  "exH_found \<equiv> \<lparr>subcorr_max = Fin 1, active_set = [3, 0], A_topo = eye2,
     G_proj = eye2, phi_sig_proj = eye2\<rparr>"

abbreviation exH_at_L :: rap_state where
  "exH_at_L \<equiv> \<lparr>subcorr_max = Fin 1, active_set = [2], A_topo = Mat 2 1 [[1], [0]],
     G_proj = eye2, phi_sig_proj = eye2\<rparr>"

text \<open>
  The signal basis of run D, and the matrix whose eigendecomposition its scan takes.
\<close>

abbreviation exD_phi_sig :: mat where
  "exD_phi_sig \<equiv> Mat 3 1 [[0], [0], [1]]"

abbreviation exD_M :: mat where
  "exD_M \<equiv> Mat 3 3 [[0, 0, 0], [0, 0, 0], [0, 0, 1]]"

section \<open>Matrices\<close>

lemma nrows_mk [simp]: "nrows (mk m n f) = m"
  and ncols_mk [simp]: "ncols (mk m n f) = n"
  by (simp_all add: mk_def)

lemma ent_mk [simp]: "i < m \<Longrightarrow> j < n \<Longrightarrow> ent (mk m n f) i j = f i j"
  by (simp add: mk_def ent_def)

lemma mk_cong: "(\<And>i j. i < m \<Longrightarrow> j < n \<Longrightarrow> f i j = g i j) \<Longrightarrow> mk m n f = mk m n g"
  by (simp add: mk_def)

lemma wf_mk [simp]: "wf (mk m n f)"
  by (auto simp: wf_def mk_def)

lemma mk_ent: "wf M \<Longrightarrow> mk (nrows M) (ncols M) (ent M) = M"
  by (cases M) (auto simp: wf_def mk_def ent_def intro!: nth_equalityI)

lemma mat_eqI:
  assumes "wf M" "wf N" "nrows M = nrows N" "ncols M = ncols N"
    and "\<And>i j. i < nrows M \<Longrightarrow> j < ncols M \<Longrightarrow> ent M i j = ent N i j"
  shows "M = N"
proof -
  have "M = mk (nrows M) (ncols M) (ent M)" using assms(1) by (simp add: mk_ent)
  also have "\<dots> = mk (nrows N) (ncols N) (ent N)"
    using assms(3,4,5) by (auto intro: mk_cong)
  also have "\<dots> = N" using assms(2) by (simp add: mk_ent)
  finally show ?thesis .
qed

lemma sum_list_upt: "(\<Sum>k\<leftarrow>[0..<n]. f k) = (\<Sum>k<n. f k)"
  by (simp add: interv_sum_list_conv_sum_set_nat atLeast0LessThan)

lemma dot_mk: "dot M N = mk (nrows M) (ncols N) (\<lambda>i j. \<Sum>k<ncols M. ent M i k * ent N k j)"
  by (simp add: dot_def sum_list_upt)

lemma ent_dot:
  "i < nrows M \<Longrightarrow> j < ncols N \<Longrightarrow> ent (dot M N) i j = (\<Sum>k<ncols M. ent M i k * ent N k j)"
  by (simp add: dot_def sum_list_upt)

lemma shape_dot [simp]: "nrows (dot M N) = nrows M" "ncols (dot M N) = ncols N" "wf (dot M N)"
  by (simp_all add: dot_def)

lemma shape_tr [simp]: "nrows (tr M) = ncols M" "ncols (tr M) = nrows M" "wf (tr M)"
  by (simp_all add: tr_def)

lemma ent_tr [simp]: "i < ncols M \<Longrightarrow> j < nrows M \<Longrightarrow> ent (tr M) i j = ent M j i"
  by (simp add: tr_def)

lemma shape_identity [simp]:
  "nrows (identity n) = n" "ncols (identity n) = n" "wf (identity n)"
  by (simp_all add: identity_def)

lemma ent_identity [simp]:
  "i < n \<Longrightarrow> j < n \<Longrightarrow> ent (identity n) i j = (if i = j then 1 else 0)"
  by (simp add: identity_def)

lemma shape_msub [simp]:
  "nrows (msub M N) = nrows M" "ncols (msub M N) = ncols M" "wf (msub M N)"
  by (simp_all add: msub_def)

lemma ent_msub [simp]:
  "i < nrows M \<Longrightarrow> j < ncols M \<Longrightarrow> ent (msub M N) i j = ent M i j - ent N i j"
  by (simp add: msub_def)

lemma shape_smult [simp]:
  "nrows (smult c M) = nrows M" "ncols (smult c M) = ncols M" "wf (smult c M)"
  by (simp_all add: smult_def)

lemma ent_smult [simp]:
  "i < nrows M \<Longrightarrow> j < ncols M \<Longrightarrow> ent (smult c M) i j = c * ent M i j"
  by (simp add: smult_def)

lemma shape_zeros [simp]: "nrows (zeros m n) = m" "ncols (zeros m n) = n"
  by (simp_all add: zeros_def)

lemma wf_zeros [simp]: "wf (zeros m n)"
  by (simp add: zeros_def)

lemma ent_zeros [simp]: "i < m \<Longrightarrow> j < n \<Longrightarrow> ent (zeros m n) i j = 0"
  by (simp add: zeros_def)

lemma shape_set_col [simp]:
  "nrows (set_col M k v) = nrows M" "ncols (set_col M k v) = ncols M"
  by (simp_all add: set_col_def)

lemma ent_set_col_other:
  "i < nrows M \<Longrightarrow> j < ncols M \<Longrightarrow> j \<noteq> k \<Longrightarrow> ent (set_col M k v) i j = ent M i j"
  by (simp add: set_col_def)

lemma ent_set_col_same:
  "i < nrows M \<Longrightarrow> k < ncols M \<Longrightarrow> ent (set_col M k v) i k = v ! i"
  by (simp add: set_col_def)

lemma set_col_twice: "set_col (set_col M k v) k w = set_col M k w"
  by (auto simp: set_col_def intro!: mk_cong)

lemma cols_all: "wf M \<Longrightarrow> cols M 0 (ncols M) = M"
  by (simp add: cols_def mk_ent)

lemma slice_from_all: "wf M \<Longrightarrow> int (ncols M) \<le> rk \<Longrightarrow> slice_from M (- rk) = M"
  by (auto simp: slice_from_def Let_def cols_all max_def min_def)

section \<open>Matrix algebra\<close>

lemma dot_assoc:
  assumes "ncols L = nrows M"
  shows "dot (dot L M) N = dot L (dot M N)"
proof -
  have "(\<Sum>k<ncols M. (\<Sum>l<ncols L. ent L i l * ent M l k) * ent N k j)
      = (\<Sum>l<ncols L. ent L i l * (\<Sum>k<ncols M. ent M l k * ent N k j))" for i j
  proof -
    have "(\<Sum>k<ncols M. (\<Sum>l<ncols L. ent L i l * ent M l k) * ent N k j)
        = (\<Sum>k<ncols M. \<Sum>l<ncols L. ent L i l * (ent M l k * ent N k j))"
      by (simp add: sum_distrib_right mult.assoc)
    also have "\<dots> = (\<Sum>l<ncols L. \<Sum>k<ncols M. ent L i l * (ent M l k * ent N k j))"
      by (rule sum.swap)
    also have "\<dots> = (\<Sum>l<ncols L. ent L i l * (\<Sum>k<ncols M. ent M l k * ent N k j))"
      by (simp add: sum_distrib_left)
    finally show ?thesis .
  qed
  note key = this
  show ?thesis
  proof (rule mat_eqI)
    fix i j assume ij: "i < nrows (dot (dot L M) N)" "j < ncols (dot (dot L M) N)"
    have "ent (dot (dot L M) N) i j
        = (\<Sum>k<ncols M. (\<Sum>l<ncols L. ent L i l * ent M l k) * ent N k j)"
      using ij by (simp add: ent_dot)
    also have "\<dots> = (\<Sum>l<ncols L. ent L i l * (\<Sum>k<ncols M. ent M l k * ent N k j))"
      by (rule key)
    also have "\<dots> = (\<Sum>l<ncols L. ent L i l * ent (dot M N) l j)"
      using ij assms by (intro sum.cong) (simp_all add: ent_dot)
    also have "\<dots> = ent (dot L (dot M N)) i j"
      using ij by (simp add: ent_dot)
    finally show "ent (dot (dot L M) N) i j = ent (dot L (dot M N)) i j" .
  qed simp_all
qed

lemma tr_dot:
  assumes "ncols M = nrows N"
  shows "tr (dot M N) = dot (tr N) (tr M)"
  using assms
  by (auto simp: tr_def[of "dot M N"] dot_mk[of "tr N"] ent_dot mult.commute intro!: mk_cong sum.cong)

lemma tr_tr: "wf M \<Longrightarrow> tr (tr M) = M"
  by (rule mat_eqI) simp_all

lemma tr_msub:
  assumes "nrows N = nrows M" "ncols N = ncols M"
  shows "tr (msub M N) = msub (tr M) (tr N)"
  using assms by (intro mat_eqI) simp_all

lemma tr_identity: "tr (identity n) = identity n"
  by (rule mat_eqI) auto

lemma dot_msub_left:
  assumes "nrows L' = nrows L" "ncols L' = ncols L"
  shows "dot (msub L L') N = msub (dot L N) (dot L' N)"
  using assms
  by (intro mat_eqI) (simp_all add: ent_dot left_diff_distrib sum_subtractf)

lemma dot_msub_right:
  assumes "nrows N' = nrows N" "ncols N' = ncols N" "ncols L = nrows N"
  shows "dot L (msub N N') = msub (dot L N) (dot L N')"
  using assms
  by (intro mat_eqI) (simp_all add: ent_dot right_diff_distrib sum_subtractf)

lemma dot_identity_left: "wf M \<Longrightarrow> dot (identity (nrows M)) M = M"
  by (rule mat_eqI) (simp_all add: ent_dot if_distrib[of "\<lambda>x. x * _"] cong: if_cong)

lemma dot_identity_right: "wf M \<Longrightarrow> dot M (identity (ncols M)) = M"
  by (rule mat_eqI) (simp_all add: ent_dot if_distrib[of "\<lambda>x. _ * x"] cong: if_cong)

lemma msub_self: "msub M M = zeros (nrows M) (ncols M)"
  by (rule mat_eqI) simp_all

lemma msub_zeros: "wf M \<Longrightarrow> msub M (zeros (nrows M) (ncols M)) = M"
  by (rule mat_eqI) simp_all

lemma msub_zero_eq:
  assumes "wf M" "wf N" "nrows N = nrows M" "ncols N = ncols M"
    and "msub M N = zeros (nrows M) (ncols M)"
  shows "M = N"
proof (rule mat_eqI)
  fix i j assume ij: "i < nrows M" "j < ncols M"
  have "ent (msub M N) i j = 0" using assms(5) ij by simp
  then show "ent M i j = ent N i j" using ij by simp
qed (use assms in simp_all)

lemma nrm2_sum: "0 < ncols x \<Longrightarrow> nrm2 x = (\<Sum>k<nrows x. (ent x k 0)\<^sup>2)"
  by (simp add: nrm2_def ent_dot power2_eq_square)

lemma nrm2_nonneg: "0 < ncols x \<Longrightarrow> 0 \<le> nrm2 x"
  by (simp add: nrm2_sum sum_nonneg)

lemma gram_zero:
  assumes "wf E" and "dot (tr E) E = zeros (ncols E) (ncols E)"
  shows "E = zeros (nrows E) (ncols E)"
proof (rule mat_eqI)
  fix i j assume ij: "i < nrows E" "j < ncols E"
  have "ent (dot (tr E) E) j j = 0" using assms(2) ij by simp
  then have "(\<Sum>k<nrows E. (ent E k j)\<^sup>2) = 0"
    using ij by (simp add: ent_dot power2_eq_square)
  then have "(ent E i j)\<^sup>2 = 0"
    using ij by (simp add: sum_nonneg_eq_0_iff)
  then show "ent E i j = ent (zeros (nrows E) (ncols E)) i j" using ij by simp
qed (use assms in simp_all)

section \<open>numpy scalars and Python indexing\<close>

lemma np_gt_trans: "np_gt a b \<Longrightarrow> np_gt b c \<Longrightarrow> np_gt a c"
  by (cases a; cases b; cases c) auto

lemma np_gt_not_NaN: "np_gt a b \<Longrightarrow> a \<noteq> NaN \<and> b \<noteq> NaN"
  by (cases a; cases b) auto

lemma np_gt_below: "np_gt a b \<Longrightarrow> \<not> np_gt c b \<Longrightarrow> c = NaN \<or> np_gt a c"
  by (cases a; cases b; cases c) auto

lemma np_gt_not_above: "np_gt a b \<Longrightarrow> \<not> np_gt c b \<Longrightarrow> \<not> np_gt c a"
  by (cases a; cases b; cases c) auto

lemma np_gt_asym: "np_gt a b \<Longrightarrow> \<not> np_gt b a"
  by (cases a; cases b) auto

lemma py_index_len: "py_index n (int n) = Inl IndexError"
  by (simp add: py_index_def)

lemma py_indices_err: "py_indices n is = Inl e \<Longrightarrow> e = IndexError"
  by (induction "is" arbitrary: e) (auto simp: py_index_def Let_def split: sum.splits if_splits)

lemma py_indices_mem: "int n \<in> set is \<Longrightarrow> py_indices n is = Inl IndexError"
proof (induction "is")
  case Nil
  then show ?case by simp
next
  case (Cons i "is")
  show ?case
  proof (cases "py_index n i")
    case (Inl e)
    then have "e = IndexError" by (auto simp: py_index_def Let_def split: if_splits)
    with Inl show ?thesis by simp
  next
    case (Inr j)
    then have "i \<noteq> int n" using py_index_len[of n] by auto
    with Cons have "py_indices n is = Inl IndexError" by simp
    with Inr show ?thesis by simp
  qed
qed

lemma py_take_err: "py_take xs idx = Inl e \<Longrightarrow> e = IndexError"
  by (auto simp: py_take_def split: sum.splits dest: py_indices_err)

lemma take_cols_err: "take_cols M idx = Inl e \<Longrightarrow> e = IndexError"
  by (auto simp: take_cols_def split: sum.splits dest: py_indices_err)

lemma finish_err: "finish la inp gain dw st = Inl e \<Longrightarrow> e = IndexError"
  by (auto simp: finish_def Let_def split: sum.splits if_splits dest: py_take_err take_cols_err)

lemma py_index_Inr:
  "py_index n i = Inr j \<longleftrightarrow> in_range n i \<and> j = nat (if i < 0 then int n + i else i)"
  by (auto simp: py_index_def in_range_def Let_def)

lemma py_indices_Inr:
  "py_indices n is = Inr js \<longleftrightarrow>
     (\<forall>i \<in> set is. in_range n i) \<and> js = map (\<lambda>i. nat (if i < 0 then int n + i else i)) is"
proof (induction "is" arbitrary: js)
  case Nil
  then show ?case by auto
next
  case (Cons i "is")
  show ?case
  proof (cases "py_index n i")
    case (Inl e)
    then have "\<not> in_range n i"
      using py_index_Inr[of n i "nat (if i < 0 then int n + i else i)"] by simp
    then show ?thesis using Inl by simp
  next
    case (Inr j)
    then have j: "in_range n i" "j = nat (if i < 0 then int n + i else i)"
      using py_index_Inr[of n i j] by simp_all
    show ?thesis
    proof (cases "py_indices n is")
      case (Inl e)
      then have "\<not> (\<forall>i \<in> set is. in_range n i)"
        using Cons.IH[of "map (\<lambda>i. nat (if i < 0 then int n + i else i)) is"] by simp
      then show ?thesis using Inr Inl by simp
    next
      case r: (Inr js')
      then have "(\<forall>i \<in> set is. in_range n i)"
        and "js' = map (\<lambda>i. nat (if i < 0 then int n + i else i)) is"
        using Cons.IH[of js'] by simp_all
      then show ?thesis using Inr r j by auto
    qed
  qed
qed

lemma py_take_Inr:
  "py_take xs idx = Inr ys \<longleftrightarrow>
     (\<forall>i \<in> set idx. in_range (length xs) i) \<and> ys = map (py_get xs) idx"
proof (cases "py_indices (length xs) idx")
  case (Inl e)
  then have "\<not> (\<forall>i \<in> set idx. in_range (length xs) i)"
    using py_indices_Inr[of "length xs" idx
        "map (\<lambda>i. nat (if i < 0 then int (length xs) + i else i)) idx"] by simp
  then show ?thesis using Inl by (simp add: py_take_def)
next
  case (Inr js)
  then have "(\<forall>i \<in> set idx. in_range (length xs) i)"
    and "js = map (\<lambda>i. nat (if i < 0 then int (length xs) + i else i)) idx"
    using py_indices_Inr[of "length xs" idx js] by simp_all
  then show ?thesis using Inr by (auto simp: py_take_def py_get_def)
qed

lemma py_take_returns:
  "(\<exists>ys. py_take xs idx = Inr ys) \<longleftrightarrow> (\<forall>i \<in> set idx. in_range (length xs) i)"
  by (simp add: py_take_Inr)

lemma take_cols_returns:
  "(\<exists>g. take_cols M idx = Inr g) \<longleftrightarrow> (\<forall>i \<in> set idx. in_range (ncols M) i)"
proof (cases "py_indices (ncols M) idx")
  case (Inl e)
  then have "\<not> (\<forall>i \<in> set idx. in_range (ncols M) i)"
    using py_indices_Inr[of "ncols M" idx
        "map (\<lambda>i. nat (if i < 0 then int (ncols M) + i else i)) idx"] by simp
  then show ?thesis using Inl by (simp add: take_cols_def)
next
  case (Inr js)
  then have "(\<forall>i \<in> set idx. in_range (ncols M) i)"
    using py_indices_Inr[of "ncols M" idx js] by simp
  then show ?thesis using Inr by (simp add: take_cols_def)
qed

lemma three_stage:
  "(case a of
      Inl e \<Rightarrow> Inl e
    | Inr D \<Rightarrow>
      (case b of
         Inl e \<Rightarrow> Inl e
       | Inr v1 \<Rightarrow> (case c of Inl e \<Rightarrow> Inl e | Inr v0 \<Rightarrow> Inr (f D v1 v0)))) = Inr out
   \<longleftrightarrow> (\<exists>D v1 v0. a = Inr D \<and> b = Inr v1 \<and> c = Inr v0 \<and> out = f D v1 v0)"
  by (cases a; cases b; cases c) auto

lemma finish_Inr:
  "finish la inp gain dw st = Inr out \<longleftrightarrow>
     (\<exists>D v1 v0.
        (if return_residual inp
         then (case take_cols gain (sort (active_set st)) of
                 Inl e \<Rightarrow> Inl e
               | Inr g \<Rightarrow> Inr (Some (dot g (lstsq la (A_topo st) dw))))
         else Inr None) = Inr D
      \<and> py_take (snd (vertno inp))
            (vertno1_index (int (length (fst (vertno inp)))) (sort (active_set st))) = Inr v1
      \<and> py_take (fst (vertno inp))
            (vertno0_index (int (length (fst (vertno inp)))) (sort (active_set st))) = Inr v0
      \<and> out = \<lparr>sol = lstsq la (A_topo st) dw, vertices = (v0, v1), explained = D\<rparr>)"
  unfolding finish_def Let_def
  by (rule three_stage[where f = "\<lambda>D v1 v0. \<lparr>sol = lstsq la (A_topo st) dw, vertices = (v0, v1), explained = D\<rparr>"])

lemma finish_returns:
  "(\<exists>out. finish la inp gain dw st = Inr out) \<longleftrightarrow>
     (return_residual inp \<longrightarrow> (\<forall>i \<in> set (active_set st). in_range (ncols gain) i))
     \<and> (\<forall>i \<in> set (vertno1_index (int (length (fst (vertno inp)))) (sort (active_set st))).
           in_range (length (snd (vertno inp))) i)
     \<and> (\<forall>i \<in> set (vertno0_index (int (length (fst (vertno inp)))) (sort (active_set st))).
           in_range (length (fst (vertno inp))) i)"
proof -
  have D: "(\<exists>D. (if return_residual inp
         then (case take_cols gain (sort (active_set st)) of
                 Inl e \<Rightarrow> Inl e
               | Inr g \<Rightarrow> Inr (Some (dot g (lstsq la (A_topo st) dw))))
         else Inr None) = Inr D)
     \<longleftrightarrow> (return_residual inp \<longrightarrow> (\<forall>i \<in> set (active_set st). in_range (ncols gain) i))"
    using take_cols_returns[of gain "sort (active_set st)"]
    by (auto split: sum.splits)
  show ?thesis
    unfolding finish_Inr using D
      py_take_returns[of "snd (vertno inp)"
        "vertno1_index (int (length (fst (vertno inp)))) (sort (active_set st))"]
      py_take_returns[of "fst (vertno inp)"
        "vertno0_index (int (length (fst (vertno inp)))) (sort (active_set st))"]
    by blast
qed

lemma finish_vertices:
  assumes "finish la inp gain dw st = Inr out"
  shows "vertices out =
      (map (py_get (fst (vertno inp)))
         (vertno0_index (int (length (fst (vertno inp)))) (sort (active_set st))),
       map (py_get (snd (vertno inp)))
         (vertno1_index (int (length (fst (vertno inp)))) (sort (active_set st))))"
    and "sol out = lstsq la (A_topo st) dw"
  using assms unfolding finish_Inr by (auto simp: py_take_Inr)

lemma vertno_index_set:
  "set (vertno1_index L (sort act)) = (\<lambda>i. i - L) ` {i \<in> set act. L < i}"
  "set (vertno0_index L (sort act)) = {i \<in> set act. i \<le> L}"
  by (auto simp: vertno1_index_def vertno0_index_def)

lemma vertno_index_sorted:
  "sorted (vertno0_index L (sort act))" "sorted (vertno1_index L (sort act))"
proof -
  have f: "sorted (filter P xs)" if "sorted xs" for P and xs :: "int list"
    using that by (induction xs) auto
  have m: "sorted (map (\<lambda>i. i - L) xs)" if "sorted xs" for xs :: "int list"
    using that by (induction xs) auto
  show "sorted (vertno0_index L (sort act))"
    unfolding vertno0_index_def by (rule f) simp
  show "sorted (vertno1_index L (sort act))"
    unfolding vertno1_index_def by (rule m, rule f) simp
qed

lemma vertno_index_range:
  assumes "L = int (length v0)" and "R = int (length v1)"
  shows "(\<forall>i \<in> set (vertno1_index L (sort act)). in_range (length v1) i)
       \<and> (\<forall>i \<in> set (vertno0_index L (sort act)). in_range (length v0) i)
     \<longleftrightarrow> (\<forall>i \<in> set act. (- L \<le> i \<and> i < L) \<or> (L < i \<and> i < L + R))"
proof -
  have a: "(\<forall>i \<in> set (vertno1_index L (sort act)). in_range (length v1) i)
      \<longleftrightarrow> (\<forall>i \<in> set act. L < i \<longrightarrow> i < L + R)"
    unfolding vertno_index_set in_range_def using assms(2) by auto
  have b: "(\<forall>i \<in> set (vertno0_index L (sort act)). in_range (length v0) i)
      \<longleftrightarrow> (\<forall>i \<in> set act. i \<le> L \<longrightarrow> - L \<le> i \<and> i < L)"
    unfolding vertno_index_set in_range_def using assms(1) by auto
  have c: "(L < i \<longrightarrow> i < L + R) \<and> (i \<le> L \<longrightarrow> - L \<le> i \<and> i < L)
      \<longleftrightarrow> (- L \<le> i \<and> i < L) \<or> (L < i \<and> i < L + R)" for i
    by auto
  show ?thesis unfolding a b using c by blast
qed

lemma sorted_lookup:
  assumes "sorted (xs :: int list)" and "sorted (idx :: int list)"
    and "\<forall>i \<in> set idx. 0 \<le> i \<and> i < int (length xs)"
  shows "sorted (map (py_get xs) idx)"
proof -
  have "sorted_wrt (\<lambda>i j. py_get xs i \<le> py_get xs j) idx"
  proof (rule sorted_wrt_mono_rel[of idx "(\<le>)"])
    fix i j assume "i \<in> set idx" "j \<in> set idx" "i \<le> j"
    then have "nat i \<le> nat j" "nat j < length xs" "0 \<le> i" "0 \<le> j"
      using assms(3) by auto
    then show "py_get xs i \<le> py_get xs j"
      using sorted_nth_mono[OF assms(1)] by (simp add: py_get_def)
  next
    show "sorted_wrt (\<le>) idx" using assms(2) by simp
  qed
  then show ?thesis by (simp add: sorted_map)
qed

section \<open>The two branches of the correlation, and the projector, without let\<close>

lemma compute_subcorr_eq:
  "compute_subcorr la G phi_sig =
     (if ncols G = 1
      then (np_sqrt (np_div (ent (dot (dot (tr G) phi_sig) (dot (tr phi_sig) G)) 0 0)
                       (ent (dot (tr G) G) 0 0)), [1])
      else (np_sqrt (Fin (last (fst (eigh la
                (dot (dot (tr (qr_reduced la G)) phi_sig) (dot (tr phi_sig) (qr_reduced la G))))))),
            last_col (snd (eigh la
                (dot (dot (tr (qr_reduced la G)) phi_sig) (dot (tr phi_sig) (qr_reduced la G)))))))"
  by (simp add: compute_subcorr_def Let_def split: prod.splits)

lemma compute_subcorr_free:
  "ncols G \<noteq> 1 \<Longrightarrow>
   compute_subcorr la G phi =
     (np_sqrt (Fin (last (fst (eigh la (free_gram la G phi))))),
      last_col (snd (eigh la (free_gram la G phi))))"
  by (simp add: compute_subcorr_eq free_gram_def)

lemma compute_proj_eq:
  "compute_proj la M = msub (identity (nrows M)) (dot (dot M (pinv la (dot (tr M) M))) (tr M))"
  by (simp add: compute_proj_def Let_def)

section \<open>The scan of one round\<close>

lemma search_step_eq:
  "search_step la n_orient k st i =
     (if np_gt (corr la n_orient st i) (subcorr_max st)
      then (if ori_fits la n_orient st i
            then Inr (st\<lparr>subcorr_max := corr la n_orient st i,
                          active_set := (active_set st)[k := int i],
                          A_topo := set_col (A_topo st) k (topo la n_orient st i)\<rparr>)
            else Inl ValueError)
      else Inr st)"
  by (simp add: search_step_def np_dotv_def ori_fits_def corr_def topo_def block_def Let_def
      split: prod.splits)

lemma search_step_Inr:
  "search_step la n_orient k st i = Inr st' \<Longrightarrow> st' = recorded la n_orient k st i"
  by (auto simp: search_step_eq recorded_def split: if_splits)

lemma search_step_Inl:
  "search_step la n_orient k st i = Inl e \<Longrightarrow> e = ValueError \<and> \<not> ori_fits la n_orient st i"
  by (auto simp: search_step_eq split: if_splits)

lemma search_step_fits:
  "ori_fits la n_orient st i \<Longrightarrow> search_step la n_orient k st i = Inr (recorded la n_orient k st i)"
  by (simp add: search_step_eq recorded_def)

lemma recorded_frame:
  "G_proj (recorded la n_orient k st i) = G_proj st"
  "phi_sig_proj (recorded la n_orient k st i) = phi_sig_proj st"
  "length (active_set (recorded la n_orient k st i)) = length (active_set st)"
  "nrows (A_topo (recorded la n_orient k st i)) = nrows (A_topo st)"
  "ncols (A_topo (recorded la n_orient k st i)) = ncols (A_topo st)"
  by (simp_all add: recorded_def set_col_def)

lemma recorded_fits:
  "ori_fits la n_orient (recorded la n_orient k st i) j = ori_fits la n_orient st j"
  by (simp add: ori_fits_def recorded_frame)

lemma search_loop_Inr:
  "search_loop la n_orient k is st = Inr st1 \<Longrightarrow> st1 = foldl (recorded la n_orient k) st is"
proof (induction "is" arbitrary: st)
  case Nil
  then show ?case by simp
next
  case (Cons i "is")
  then obtain s where s: "search_step la n_orient k st i = Inr s"
    and rest: "search_loop la n_orient k is s = Inr st1"
    by (auto split: sum.splits)
  show ?case using Cons.IH[OF rest] search_step_Inr[OF s] by simp
qed

lemma search_loop_Inl:
  "search_loop la n_orient k is st = Inl e \<Longrightarrow>
     e = ValueError \<and> (\<exists>i \<in> set is. \<not> ori_fits la n_orient st i)"
proof (induction "is" arbitrary: st)
  case Nil
  then show ?case by simp
next
  case (Cons i "is")
  show ?case
  proof (cases "search_step la n_orient k st i")
    case (Inl e')
    then have "e' = e" using Cons.prems by simp
    then show ?thesis using search_step_Inl[OF Inl] by simp
  next
    case (Inr s)
    then have "search_loop la n_orient k is s = Inl e" using Cons.prems by simp
    from Cons.IH[OF this] show ?thesis
      using search_step_Inr[OF Inr] by (auto simp: recorded_fits)
  qed
qed

lemma search_loop_fits:
  "\<forall>i \<in> set is. ori_fits la n_orient st i \<Longrightarrow>
     search_loop la n_orient k is st = Inr (foldl (recorded la n_orient k) st is)"
proof (induction "is" arbitrary: st)
  case Nil
  then show ?case by simp
next
  case (Cons i "is")
  have "\<forall>j \<in> set is. ori_fits la n_orient (recorded la n_orient k st i) j"
    using Cons.prems by (simp add: recorded_fits)
  from Cons.IH[OF this] show ?case
    using Cons.prems by (simp add: search_step_fits)
qed

lemma block_shape:
  "n_orient * i + n_orient \<le> ncols M \<Longrightarrow> ncols (block n_orient M i) = n_orient"
  "nrows (block n_orient M i) = nrows M"
  by (simp_all add: block_def cols_def)

lemma candidate_block:
  assumes "(i::nat) < c div n_orient"
  shows "n_orient * i + n_orient \<le> c"
proof -
  have "Suc i \<le> c div n_orient" using assms by simp
  then have "n_orient * Suc i \<le> n_orient * (c div n_orient)" by (rule mult_le_mono2)
  also have "\<dots> \<le> c" by simp
  finally show ?thesis by simp
qed

lemma oris_fit_fixed: "oris_fit la 1 m"
  by (simp add: oris_fit_def compute_subcorr_eq)

lemma oris_fit_candidate:
  assumes "oris_fit la n_orient (nrows (G_proj st))" and "i < ncols (G_proj st) div n_orient"
  shows "ori_fits la n_orient st i"
  using assms(1) block_shape(1)[OF candidate_block[OF assms(2)]]
  by (simp add: ori_fits_def oris_fit_def block_shape(2))

lemma scanned_0 [simp]: "scanned la n_orient k st 0 = st"
  by (simp add: scanned_def)

lemma scanned_Suc:
  "scanned la n_orient k st (Suc n) = recorded la n_orient k (scanned la n_orient k st n) n"
  by (simp add: scanned_def)

lemma scanned_frame:
  "G_proj (scanned la n_orient k st n) = G_proj st"
  "phi_sig_proj (scanned la n_orient k st n) = phi_sig_proj st"
  "length (active_set (scanned la n_orient k st n)) = length (active_set st)"
  "nrows (A_topo (scanned la n_orient k st n)) = nrows (A_topo st)"
  "ncols (A_topo (scanned la n_orient k st n)) = ncols (A_topo st)"
  by (induction n) (simp_all add: scanned_Suc recorded_frame)

lemma scanned_corr:
  "corr la n_orient (scanned la n_orient k st n) i = corr la n_orient st i"
  "topo la n_orient (scanned la n_orient k st n) i = topo la n_orient st i"
  by (simp_all add: corr_def topo_def scanned_frame)

lemma search_loop_scanned:
  "search_loop la n_orient k [0..<n] st = Inr st1 \<Longrightarrow> st1 = scanned la n_orient k st n"
  unfolding scanned_def by (rule search_loop_Inr)

lemma scanned_inv:
  assumes "subcorr_max st = Fin (- 1)"
  shows "no_winner la n_orient k st n (scanned la n_orient k st n)
       \<or> (\<exists>i. winner la n_orient k st n (scanned la n_orient k st n) i)"
proof (induction n)
  case 0
  then show ?case by (simp add: no_winner_def)
next
  case (Suc n)
  let ?s = "scanned la n_orient k st n"
  let ?c = "corr la n_orient st"
  have step: "scanned la n_orient k st (Suc n) =
     (if np_gt (?c n) (subcorr_max ?s)
      then ?s\<lparr>subcorr_max := ?c n, active_set := (active_set ?s)[k := int n],
              A_topo := set_col (A_topo ?s) k (topo la n_orient st n)\<rparr>
      else ?s)"
    by (simp add: scanned_Suc recorded_def scanned_corr)
  from Suc show ?case
  proof
    assume nw: "no_winner la n_orient k st n ?s"
    then have s: "?s = st" and below: "\<forall>j<n. \<not> np_gt (?c j) (Fin (- 1))"
      by (simp_all add: no_winner_def)
    show ?thesis
    proof (cases "np_gt (?c n) (Fin (- 1))")
      case True
      have "\<forall>j<n. ?c j = NaN \<or> np_gt (?c n) (?c j)"
        using below True np_gt_below by blast
      then have "winner la n_orient k st (Suc n) (scanned la n_orient k st (Suc n)) n"
        using True s assms by (simp add: step winner_def)
      then show ?thesis by blast
    next
      case False
      then have "no_winner la n_orient k st (Suc n) (scanned la n_orient k st (Suc n))"
        using s assms below by (auto simp: step no_winner_def less_Suc_eq)
      then show ?thesis by blast
    qed
  next
    assume "\<exists>i. winner la n_orient k st n ?s i"
    then obtain i where w: "winner la n_orient k st n ?s i" by blast
    then have m: "subcorr_max ?s = ?c i" and i: "i < n" and gi: "np_gt (?c i) (Fin (- 1))"
      and lo: "\<forall>j<i. ?c j = NaN \<or> np_gt (?c i) (?c j)"
      and hi: "\<forall>j<n. i < j \<longrightarrow> \<not> np_gt (?c j) (?c i)"
      by (simp_all add: winner_def)
    show ?thesis
    proof (cases "np_gt (?c n) (?c i)")
      case True
      have a: "np_gt (?c n) (Fin (- 1))" using True gi np_gt_trans by blast
      have b: "\<forall>j<n. ?c j = NaN \<or> np_gt (?c n) (?c j)"
      proof (intro allI impI)
        fix j assume j: "j < n"
        consider "j < i" | "j = i" | "i < j" by linarith
        then show "?c j = NaN \<or> np_gt (?c n) (?c j)"
        proof cases
          case 1
          then show ?thesis using lo True np_gt_trans by blast
        next
          case 2
          then show ?thesis using True by simp
        next
          case 3
          then show ?thesis using hi j True np_gt_below by blast
        qed
      qed
      have "winner la n_orient k st (Suc n) (scanned la n_orient k st (Suc n)) n"
        using True a b w m by (simp add: step winner_def set_col_twice)
      then show ?thesis by blast
    next
      case False
      then have "winner la n_orient k st (Suc n) (scanned la n_orient k st (Suc n)) i"
        using w m by (auto simp: step winner_def less_Suc_eq)
      then show ?thesis by blast
    qed
  qed
qed

lemma scanned_entry:
  assumes "subcorr_max st = Fin (- 1)" and "k < length (active_set st)"
    and "active_set st ! k = - 1"
  shows "i < n \<Longrightarrow>
           active_set (scanned la n_orient k st n) ! k = int i \<longleftrightarrow> first_max la n_orient st n i"
    and "active_set (scanned la n_orient k st n) ! k = - 1
           \<longleftrightarrow> (\<forall>j<n. \<not> np_gt (corr la n_orient st j) (Fin (- 1)))"
proof -
  let ?c = "corr la n_orient st"
  let ?s = "scanned la n_orient k st n"
  consider (none) "no_winner la n_orient k st n ?s"
    | (some) w where "winner la n_orient k st n ?s w"
    using scanned_inv[OF assms(1), of la n_orient k n] by blast
  then have "(i < n \<longrightarrow> (active_set ?s ! k = int i \<longleftrightarrow> first_max la n_orient st n i))
     \<and> (active_set ?s ! k = - 1 \<longleftrightarrow> (\<forall>j<n. \<not> np_gt (?c j) (Fin (- 1))))"
  proof cases
    case none
    then have a: "active_set ?s ! k = - 1" and b: "\<forall>j<n. \<not> np_gt (?c j) (Fin (- 1))"
      using assms(3) by (simp_all add: no_winner_def)
    have "\<not> first_max la n_orient st n i" if "i < n"
      using b that by (simp add: first_max_def)
    then show ?thesis using a b by auto
  next
    case (some w)
    then have a: "active_set ?s ! k = int w" and w: "w < n"
      and gw: "np_gt (?c w) (Fin (- 1))"
      and lo: "\<forall>j<w. ?c j = NaN \<or> np_gt (?c w) (?c j)"
      and hi: "\<forall>j<n. w < j \<longrightarrow> \<not> np_gt (?c j) (?c w)"
      using assms(2) by (simp_all add: winner_def)
    have fw: "first_max la n_orient st n w"
      using gw lo hi by (simp add: first_max_def)
    have uniq: "i = w" if i: "i < n" and b: "first_max la n_orient st n i"
    proof (rule ccontr)
      assume "i \<noteq> w"
      then consider "i < w" | "w < i" by linarith
      then show False
      proof cases
        case 1
        then have "?c i = NaN \<or> np_gt (?c w) (?c i)" using lo by blast
        moreover have "?c i \<noteq> NaN" using b np_gt_not_NaN by (auto simp: first_max_def)
        moreover have "\<not> np_gt (?c w) (?c i)" using b 1 w by (simp add: first_max_def)
        ultimately show False by blast
      next
        case 2
        then have "?c w = NaN \<or> np_gt (?c i) (?c w)" using b by (simp add: first_max_def)
        moreover have "?c w \<noteq> NaN" using gw np_gt_not_NaN by blast
        moreover have "\<not> np_gt (?c i) (?c w)" using hi 2 i by blast
        ultimately show False by blast
      qed
    qed
    have "active_set ?s ! k = int i \<longleftrightarrow> first_max la n_orient st n i" if "i < n"
      using a fw uniq[OF that] by auto
    moreover have "active_set ?s ! k \<noteq> - 1" using a by simp
    moreover have "\<not> (\<forall>j<n. \<not> np_gt (?c j) (Fin (- 1)))" using gw w by blast
    ultimately show ?thesis by blast
  qed
  then show "i < n \<Longrightarrow>
           active_set (scanned la n_orient k st n) ! k = int i \<longleftrightarrow> first_max la n_orient st n i"
    and "active_set (scanned la n_orient k st n) ! k = - 1
           \<longleftrightarrow> (\<forall>j<n. \<not> np_gt (corr la n_orient st j) (Fin (- 1)))"
    by blast+
qed

lemma first_max_attains:
  assumes "first_max la n_orient st n i" and "i < n"
  shows "\<forall>j<n. \<not> np_gt (corr la n_orient st j) (corr la n_orient st i)"
    and "\<forall>j<i. corr la n_orient st j \<noteq> corr la n_orient st i"
proof -
  let ?c = "corr la n_orient st"
  have gi: "np_gt (?c i) (Fin (- 1))"
    and lo: "\<forall>j<i. ?c j = NaN \<or> np_gt (?c i) (?c j)"
    and hi: "\<forall>j<n. i < j \<longrightarrow> \<not> np_gt (?c j) (?c i)"
    using assms(1) by (simp_all add: first_max_def)
  show "\<forall>j<n. \<not> np_gt (?c j) (?c i)"
  proof (intro allI impI)
    fix j assume j: "j < n"
    consider "j < i" | "j = i" | "i < j" by linarith
    then show "\<not> np_gt (?c j) (?c i)"
    proof cases
      case 1
      then have "?c j = NaN \<or> np_gt (?c i) (?c j)" using lo by blast
      then show ?thesis using np_gt_not_NaN np_gt_asym by blast
    next
      case 2
      then show ?thesis using np_gt_asym by blast
    next
      case 3
      then show ?thesis using hi j by blast
    qed
  qed
  show "\<forall>j<i. ?c j \<noteq> ?c i"
  proof (intro allI impI)
    fix j assume j: "j < i"
    then have "?c j = NaN \<or> np_gt (?c i) (?c j)" using lo by blast
    moreover have "?c i \<noteq> NaN" using gi np_gt_not_NaN by blast
    ultimately show "?c j \<noteq> ?c i" using np_gt_asym by metis
  qed
qed

text \<open>
  C7. A pass of the inner loop replaces the recorded candidate only on a strictly greater
  correlation, and otherwise leaves every variable as it is. So after a scan of \<open>n\<close>
  candidates, started with \<open>subcorr_max = -1\<close>, candidate \<open>i\<close> is the recorded one
  exactly when its correlation exceeds \<open>-1\<close>, exceeds the correlation of every earlier
  candidate that has one (a \<^verbatim>\<open>nan\<close> is no correlation), and is exceeded by no later
  one: the recorded candidate attains the maximum and no earlier candidate has the same
  correlation. The scan raises only \<^verbatim>\<open>ValueError\<close>, and only when the orientation of
  some candidate has not the width of its block; it returns when every orientation fits, as
  it does in a fixed-orientation run.
\<close>

theorem search_keeps_first_maximum:
  assumes "subcorr_max st = Fin (- 1)" and "k < length (active_set st)"
    and "active_set st ! k = - 1"
  shows "(\<forall>st' i. \<not> np_gt (corr la n_orient st' i) (subcorr_max st')
            \<longrightarrow> search_step la n_orient k st' i = Inr st')
       \<and> (\<forall>st1. search_loop la n_orient k [0..<n] st = Inr st1 \<longrightarrow>
            (\<forall>i<n. active_set st1 ! k = int i
               \<longleftrightarrow> np_gt (corr la n_orient st i) (Fin (- 1))
                 \<and> (\<forall>j<i. corr la n_orient st j = NaN
                            \<or> np_gt (corr la n_orient st i) (corr la n_orient st j))
                 \<and> (\<forall>j<n. i < j \<longrightarrow> \<not> np_gt (corr la n_orient st j) (corr la n_orient st i)))
          \<and> (\<forall>i<n. active_set st1 ! k = int i
               \<longrightarrow> (\<forall>j<n. \<not> np_gt (corr la n_orient st j) (corr la n_orient st i))
                 \<and> (\<forall>j<i. corr la n_orient st j \<noteq> corr la n_orient st i)))
       \<and> (\<forall>e. search_loop la n_orient k [0..<n] st = Inl e
            \<longrightarrow> e = ValueError \<and> (\<exists>i<n. \<not> ori_fits la n_orient st i))
       \<and> ((n_orient = 1 \<and> n \<le> ncols (G_proj st)) \<or> (\<forall>i<n. ori_fits la n_orient st i)
            \<longrightarrow> (\<exists>st1. search_loop la n_orient k [0..<n] st = Inr st1))"
proof -
  let ?c = "corr la n_orient st"
  let ?s = "scanned la n_orient k st n"
  have unchanged: "\<forall>st' i. \<not> np_gt (corr la n_orient st' i) (subcorr_max st')
            \<longrightarrow> search_step la n_orient k st' i = Inr st'"
    by (simp add: search_step_eq)
  have char: "active_set ?s ! k = int i
      \<longleftrightarrow> np_gt (?c i) (Fin (- 1))
        \<and> (\<forall>j<i. ?c j = NaN \<or> np_gt (?c i) (?c j))
        \<and> (\<forall>j<n. i < j \<longrightarrow> \<not> np_gt (?c j) (?c i))" if "i < n" for i
    using scanned_entry(1)[OF assms that, of la n_orient] by (simp add: first_max_def)
  have first: "(\<forall>j<n. \<not> np_gt (?c j) (?c i)) \<and> (\<forall>j<i. ?c j \<noteq> ?c i)"
    if "i < n" and "active_set ?s ! k = int i" for i
  proof -
    have f: "first_max la n_orient st n i"
      using scanned_entry(1)[OF assms that(1), of la n_orient] that(2) by simp
    show ?thesis
      using first_max_attains(1)[OF f that(1)] first_max_attains(2)[OF f that(1)] by simp
  qed
  have returned: "(\<forall>i<n. active_set st1 ! k = int i
               \<longleftrightarrow> np_gt (?c i) (Fin (- 1))
                 \<and> (\<forall>j<i. ?c j = NaN \<or> np_gt (?c i) (?c j))
                 \<and> (\<forall>j<n. i < j \<longrightarrow> \<not> np_gt (?c j) (?c i)))
          \<and> (\<forall>i<n. active_set st1 ! k = int i
               \<longrightarrow> (\<forall>j<n. \<not> np_gt (?c j) (?c i)) \<and> (\<forall>j<i. ?c j \<noteq> ?c i))"
    if "search_loop la n_orient k [0..<n] st = Inr st1" for st1
  proof -
    have s: "st1 = ?s" using that by (rule search_loop_scanned)
    show ?thesis unfolding s
    proof (intro conjI allI impI)
      fix i assume "i < n"
      then show "active_set ?s ! k = int i
               \<longleftrightarrow> np_gt (?c i) (Fin (- 1))
                 \<and> (\<forall>j<i. ?c j = NaN \<or> np_gt (?c i) (?c j))
                 \<and> (\<forall>j<n. i < j \<longrightarrow> \<not> np_gt (?c j) (?c i))"
        by (rule char)
    next
      fix i j assume "i < n" "active_set ?s ! k = int i" "j < n"
      then show "\<not> np_gt (?c j) (?c i)" using first by blast
    next
      fix i j assume "i < n" "active_set ?s ! k = int i" "j < i"
      then show "?c j \<noteq> ?c i" using first by blast
    qed
  qed
  have raised: "e = ValueError \<and> (\<exists>i<n. \<not> ori_fits la n_orient st i)"
    if "search_loop la n_orient k [0..<n] st = Inl e" for e
    using search_loop_Inl[OF that] by auto
  have fits: "\<exists>st1. search_loop la n_orient k [0..<n] st = Inr st1"
    if "\<forall>i<n. ori_fits la n_orient st i"
    using search_loop_fits[of "[0..<n]" la n_orient st k] that by simp
  have fixed: "\<forall>i<n. ori_fits la n_orient st i" if "n_orient = 1 \<and> n \<le> ncols (G_proj st)"
  proof (intro allI impI)
    fix i assume "i < n"
    then have "i < ncols (G_proj st) div 1" using that by simp
    from oris_fit_candidate[OF oris_fit_fixed this] show "ori_fits la n_orient st i"
      using that by simp
  qed
  show ?thesis
  proof (intro conjI)
    show "\<forall>st' i. \<not> np_gt (corr la n_orient st' i) (subcorr_max st')
            \<longrightarrow> search_step la n_orient k st' i = Inr st'"
      by (rule unchanged)
  next
    show "\<forall>st1. search_loop la n_orient k [0..<n] st = Inr st1 \<longrightarrow>
            (\<forall>i<n. active_set st1 ! k = int i
               \<longleftrightarrow> np_gt (?c i) (Fin (- 1))
                 \<and> (\<forall>j<i. ?c j = NaN \<or> np_gt (?c i) (?c j))
                 \<and> (\<forall>j<n. i < j \<longrightarrow> \<not> np_gt (?c j) (?c i)))
          \<and> (\<forall>i<n. active_set st1 ! k = int i
               \<longrightarrow> (\<forall>j<n. \<not> np_gt (?c j) (?c i)) \<and> (\<forall>j<i. ?c j \<noteq> ?c i))"
    proof (intro allI impI)
      fix st1 assume "search_loop la n_orient k [0..<n] st = Inr st1"
      then show "(\<forall>i<n. active_set st1 ! k = int i
               \<longleftrightarrow> np_gt (?c i) (Fin (- 1))
                 \<and> (\<forall>j<i. ?c j = NaN \<or> np_gt (?c i) (?c j))
                 \<and> (\<forall>j<n. i < j \<longrightarrow> \<not> np_gt (?c j) (?c i)))
          \<and> (\<forall>i<n. active_set st1 ! k = int i
               \<longrightarrow> (\<forall>j<n. \<not> np_gt (?c j) (?c i)) \<and> (\<forall>j<i. ?c j \<noteq> ?c i))"
        by (rule returned)
    qed
  next
    show "\<forall>e. search_loop la n_orient k [0..<n] st = Inl e
            \<longrightarrow> e = ValueError \<and> (\<exists>i<n. \<not> ori_fits la n_orient st i)"
      using raised by blast
  next
    show "(n_orient = 1 \<and> n \<le> ncols (G_proj st)) \<or> (\<forall>i<n. ori_fits la n_orient st i)
            \<longrightarrow> (\<exists>st1. search_loop la n_orient k [0..<n] st = Inr st1)"
      using fits fixed by blast
  qed
qed

section \<open>The rounds of the greedy loop\<close>

lemma log_ori_eq:
  "log_ori la n_orient n_cand st =
     (if n_orient = 3 then
        (if n_cand = 0 then Inl NameError
         else if length (snd (compute_subcorr la (block n_orient (G_proj st) (n_cand - 1))
                                (phi_sig_proj st))) < 3
              then Inl IndexError else Inr ())
      else Inr ())"
  by (simp add: log_ori_def block_def Let_def split: prod.splits)

lemma rap_round_eq:
  "rap_round la n_orient G phi_sig k st =
     (case search_loop la n_orient k [0..<ncols G div n_orient] (st\<lparr>subcorr_max := Fin (- 1)\<rparr>) of
        Inl e \<Rightarrow> Inl e
      | Inr st1 \<Rightarrow>
        (case log_ori la n_orient (ncols G div n_orient) st1 of
           Inl e \<Rightarrow> Inl e
         | Inr u \<Rightarrow>
           Inr (st1\<lparr>G_proj := dot (compute_proj la (cols (A_topo st1) 0 (k + 1))) G,
                    phi_sig_proj := dot (compute_proj la (cols (A_topo st1) 0 (k + 1))) phi_sig\<rparr>)))"
  by (simp add: rap_round_def Let_def split: sum.splits)

lemma rap_round_scanned:
  assumes "rap_round la n_orient G phi_sig k st = Inr st'"
  shows "st' = (scanned la n_orient k (st\<lparr>subcorr_max := Fin (- 1)\<rparr>) (ncols G div n_orient))
        \<lparr>G_proj := dot (compute_proj la (cols (A_topo
             (scanned la n_orient k (st\<lparr>subcorr_max := Fin (- 1)\<rparr>) (ncols G div n_orient))) 0 (k + 1))) G,
         phi_sig_proj := dot (compute_proj la (cols (A_topo
             (scanned la n_orient k (st\<lparr>subcorr_max := Fin (- 1)\<rparr>) (ncols G div n_orient))) 0 (k + 1))) phi_sig\<rparr>"
proof -
  from assms obtain st1 where
    l: "search_loop la n_orient k [0..<ncols G div n_orient] (st\<lparr>subcorr_max := Fin (- 1)\<rparr>) = Inr st1"
    and st': "st' = st1\<lparr>G_proj := dot (compute_proj la (cols (A_topo st1) 0 (k + 1))) G,
                    phi_sig_proj := dot (compute_proj la (cols (A_topo st1) 0 (k + 1))) phi_sig\<rparr>"
    by (auto simp: rap_round_eq split: sum.splits)
  show ?thesis using search_loop_scanned[OF l] st' by simp
qed

lemma rap_round_Inl:
  assumes "rap_round la n_orient G phi_sig k st = Inl e"
  shows "(e = ValueError \<and> (\<exists>i < ncols G div n_orient. \<not> ori_fits la n_orient st i))
       \<or> (e = NameError \<and> n_orient = 3 \<and> ncols G div n_orient = 0)
       \<or> (e = IndexError \<and> n_orient = 3 \<and> 0 < ncols G div n_orient
            \<and> length (snd (compute_subcorr la
                  (block n_orient (G_proj st) (ncols G div n_orient - 1)) (phi_sig_proj st))) < 3)"
proof (cases "search_loop la n_orient k [0..<ncols G div n_orient] (st\<lparr>subcorr_max := Fin (- 1)\<rparr>)")
  case (Inl e')
  then have "e' = e" using assms by (simp add: rap_round_eq)
  then show ?thesis using search_loop_Inl[OF Inl] by (auto simp: ori_fits_def)
next
  case (Inr st1)
  then have st1: "G_proj st1 = G_proj st" "phi_sig_proj st1 = phi_sig_proj st"
    using search_loop_scanned[OF Inr] by (simp_all add: scanned_frame)
  have "log_ori la n_orient (ncols G div n_orient) st1 = Inl e"
    using assms Inr by (simp add: rap_round_eq split: sum.splits)
  then show ?thesis
    by (auto simp: log_ori_eq st1 split: if_splits)
qed

lemma corr_reset [simp]:
  "corr la n_orient (st\<lparr>subcorr_max := x\<rparr>) i = corr la n_orient st i"
  "topo la n_orient (st\<lparr>subcorr_max := x\<rparr>) i = topo la n_orient st i"
  "ori_fits la n_orient (st\<lparr>subcorr_max := x\<rparr>) i = ori_fits la n_orient st i"
  "first_max la n_orient (st\<lparr>subcorr_max := x\<rparr>) n i = first_max la n_orient st n i"
  by (simp_all add: corr_def topo_def ori_fits_def first_max_def)

lemma rap_round_effect:
  assumes "rap_round la n_orient G phi_sig k st = Inr st'"
  shows "G_proj st' = dot (compute_proj la (cols (A_topo st') 0 (k + 1))) G"
    and "phi_sig_proj st' = dot (compute_proj la (cols (A_topo st') 0 (k + 1))) phi_sig"
    and "(active_set st' = active_set st \<and> A_topo st' = A_topo st)
       \<or> (\<exists>i < ncols G div n_orient.
             active_set st' = (active_set st)[k := int i]
           \<and> A_topo st' = set_col (A_topo st) k (topo la n_orient st i))"
proof -
  let ?ini = "st\<lparr>subcorr_max := Fin (- 1)\<rparr>"
  let ?n = "ncols G div n_orient"
  let ?s = "scanned la n_orient k ?ini ?n"
  let ?P = "compute_proj la (cols (A_topo ?s) 0 (k + 1))"
  have st': "st' = ?s\<lparr>G_proj := dot ?P G, phi_sig_proj := dot ?P phi_sig\<rparr>"
    using assms by (rule rap_round_scanned)
  show "G_proj st' = dot (compute_proj la (cols (A_topo st') 0 (k + 1))) G"
    and "phi_sig_proj st' = dot (compute_proj la (cols (A_topo st') 0 (k + 1))) phi_sig"
    by (simp_all add: st')
  have "subcorr_max ?ini = Fin (- 1)" by simp
  then consider (none) "no_winner la n_orient k ?ini ?n ?s"
    | (some) w where "winner la n_orient k ?ini ?n ?s w"
    using scanned_inv by blast
  then show "(active_set st' = active_set st \<and> A_topo st' = A_topo st)
       \<or> (\<exists>i < ncols G div n_orient.
             active_set st' = (active_set st)[k := int i]
           \<and> A_topo st' = set_col (A_topo st) k (topo la n_orient st i))"
  proof cases
    case none
    then have "?s = ?ini" by (simp add: no_winner_def)
    then have "active_set ?s = active_set st" "A_topo ?s = A_topo st" by simp_all
    then show ?thesis by (simp add: st')
  next
    case (some w)
    then have "w < ?n" "active_set ?s = (active_set st)[k := int w]"
      "A_topo ?s = set_col (A_topo st) k (topo la n_orient st w)"
      by (simp_all add: winner_def)
    then show ?thesis by (auto simp: st')
  qed
qed

lemma rap_round_entry:
  assumes "rap_round la n_orient G phi_sig k st = Inr st'"
    and "k < length (active_set st)" and "active_set st ! k = - 1"
  shows "i < ncols G div n_orient \<Longrightarrow>
           active_set st' ! k = int i \<longleftrightarrow> first_max la n_orient st (ncols G div n_orient) i"
    and "active_set st' ! k = - 1
           \<longleftrightarrow> (\<forall>j < ncols G div n_orient. \<not> np_gt (corr la n_orient st j) (Fin (- 1)))"
proof -
  let ?ini = "st\<lparr>subcorr_max := Fin (- 1)\<rparr>"
  let ?n = "ncols G div n_orient"
  have a: "active_set st' = active_set (scanned la n_orient k ?ini ?n)"
    using rap_round_scanned[OF assms(1)] by simp
  have h: "subcorr_max ?ini = Fin (- 1)" "k < length (active_set ?ini)"
    "active_set ?ini ! k = - 1"
    using assms(2,3) by simp_all
  show "i < ncols G div n_orient \<Longrightarrow>
           active_set st' ! k = int i \<longleftrightarrow> first_max la n_orient st (ncols G div n_orient) i"
    using scanned_entry(1)[OF h, of i ?n la n_orient] by (simp add: a)
  show "active_set st' ! k = - 1
           \<longleftrightarrow> (\<forall>j < ncols G div n_orient. \<not> np_gt (corr la n_orient st j) (Fin (- 1)))"
    using scanned_entry(2)[OF h, of la n_orient ?n] by (simp add: a)
qed

lemma rap_round_returns:
  assumes "oris_fit la n_orient (nrows (G_proj st))" and "ncols (G_proj st) = ncols G"
    and "n_orient = 3 \<longrightarrow> 0 < ncols G div n_orient"
  shows "\<exists>st'. rap_round la n_orient G phi_sig k st = Inr st'"
proof -
  let ?ini = "st\<lparr>subcorr_max := Fin (- 1)\<rparr>"
  let ?n = "ncols G div n_orient"
  have fits: "ori_fits la n_orient st i" if "i < ?n" for i
    using oris_fit_candidate[OF assms(1)] that assms(2) by simp
  then have "\<forall>i \<in> set [0..<?n]. ori_fits la n_orient ?ini i" by simp
  from search_loop_fits[OF this]
  have l: "search_loop la n_orient k [0..<?n] ?ini = Inr (scanned la n_orient k ?ini ?n)"
    by (simp add: scanned_def)
  have "log_ori la n_orient ?n (scanned la n_orient k ?ini ?n) = Inr ()"
  proof (cases "n_orient = 3")
    case True
    then have pos: "0 < ?n" using assms(3) by simp
    then have "ori_fits la n_orient st (?n - 1)" using fits by simp
    moreover have "n_orient * (?n - 1) + n_orient \<le> ncols (G_proj st)"
      using candidate_block[of "?n - 1" "ncols (G_proj st)" n_orient] pos assms(2) by simp
    then have "ncols (block n_orient (G_proj st) (?n - 1)) = n_orient"
      by (rule block_shape(1))
    ultimately show ?thesis
      using True pos by (simp add: log_ori_eq scanned_frame ori_fits_def)
  next
    case False
    then show ?thesis by (simp add: log_ori_eq)
  qed
  then show ?thesis using l by (simp add: rap_round_eq)
qed

lemma rap_round_shape:
  assumes "rap_round la n_orient G phi_sig k st = Inr st'"
  shows "ncols (G_proj st') = ncols G"
    and "nrows (G_proj st') = nrows (A_topo st')"
  using rap_round_effect(1)[OF assms] by (simp_all add: compute_proj_eq cols_def)

lemma rap_rounds_append:
  "rap_rounds la n_orient G phi_sig (xs @ ys) st =
     (case rap_rounds la n_orient G phi_sig xs st of
        Inl e \<Rightarrow> Inl e
      | Inr st' \<Rightarrow> rap_rounds la n_orient G phi_sig ys st')"
  by (induction xs arbitrary: st) (auto split: sum.splits)

lemma rap_round_keeps:
  assumes "rap_round la n_orient G phi_sig k st = Inr st'"
  shows "length (active_set st') = length (active_set st)"
    and "nrows (A_topo st') = nrows (A_topo st)"
    and "ncols (A_topo st') = ncols (A_topo st)"
    and "j \<noteq> k \<Longrightarrow> active_set st' ! j = active_set st ! j"
    and "j \<noteq> k \<Longrightarrow> i < nrows (A_topo st) \<Longrightarrow> j < ncols (A_topo st) \<Longrightarrow>
           ent (A_topo st') i j = ent (A_topo st) i j"
  using rap_round_effect(3)[OF assms]
  by (auto simp: ent_set_col_other)

lemma rap_rounds_keep:
  assumes "rap_rounds la n_orient G phi_sig ks st = Inr st'"
  shows "length (active_set st') = length (active_set st)
       \<and> nrows (A_topo st') = nrows (A_topo st)
       \<and> ncols (A_topo st') = ncols (A_topo st)
       \<and> (\<forall>j. j \<notin> set ks \<longrightarrow> active_set st' ! j = active_set st ! j)
       \<and> (\<forall>j i. j \<notin> set ks \<longrightarrow> i < nrows (A_topo st) \<longrightarrow> j < ncols (A_topo st) \<longrightarrow>
             ent (A_topo st') i j = ent (A_topo st) i j)"
  using assms
proof (induction ks arbitrary: st)
  case Nil
  then show ?case by simp
next
  case (Cons k ks)
  then obtain s1 where r: "rap_round la n_orient G phi_sig k st = Inr s1"
    and rest: "rap_rounds la n_orient G phi_sig ks s1 = Inr st'"
    by (auto split: sum.splits)
  note ih = Cons.IH[OF rest]
  note kp = rap_round_keeps[OF r]
  show ?case using ih kp by auto
qed

lemma rap_rounds_entries:
  assumes "rap_rounds la n_orient G phi_sig ks st = Inr st'"
    and "j < length (active_set st)"
  shows "active_set st' ! j = active_set st ! j
       \<or> (0 \<le> active_set st' ! j \<and> active_set st' ! j < int (ncols G div n_orient))"
  using assms
proof (induction ks arbitrary: st)
  case Nil
  then show ?case by simp
next
  case (Cons k ks)
  then obtain s1 where r: "rap_round la n_orient G phi_sig k st = Inr s1"
    and rest: "rap_rounds la n_orient G phi_sig ks s1 = Inr st'"
    by (auto split: sum.splits)
  have len: "length (active_set s1) = length (active_set st)"
    using rap_round_keeps(1)[OF r] .
  have ih: "active_set st' ! j = active_set s1 ! j
       \<or> (0 \<le> active_set st' ! j \<and> active_set st' ! j < int (ncols G div n_orient))"
    using Cons.IH[OF rest] Cons.prems(2) len by simp
  have "active_set s1 ! j = active_set st ! j
       \<or> (0 \<le> active_set s1 ! j \<and> active_set s1 ! j < int (ncols G div n_orient))"
    using rap_round_effect(3)[OF r] Cons.prems(2)
    by (cases "j = k") auto
  then show ?case using ih by auto
qed

lemma rap_rounds_return:
  assumes "oris_fit la n_orient (nrows G)" and "n_orient = 3 \<longrightarrow> 0 < ncols G div n_orient"
    and "ncols (G_proj st) = ncols G" and "nrows (G_proj st) = nrows G"
    and "nrows (A_topo st) = nrows G"
  shows "\<exists>st'. rap_rounds la n_orient G phi_sig ks st = Inr st'"
  using assms(3-)
proof (induction ks arbitrary: st)
  case Nil
  then show ?case by simp
next
  case (Cons k ks)
  have "oris_fit la n_orient (nrows (G_proj st))" using assms(1) Cons.prems by simp
  from rap_round_returns[OF this Cons.prems(1) assms(2)]
  obtain s1 where r: "rap_round la n_orient G phi_sig k st = Inr s1" by blast
  have "ncols (G_proj s1) = ncols G" "nrows (G_proj s1) = nrows G" "nrows (A_topo s1) = nrows G"
    using rap_round_shape[OF r] rap_round_keeps(2)[OF r] Cons.prems by simp_all
  from Cons.IH[OF this] show ?case using r by simp
qed

lemma upt_split3: "k < m \<Longrightarrow> [0..<m] = [0..<k] @ [k] @ [Suc k..<m]"
  by (metis append_Cons append_Nil upt_add_eq_append upt_conv_Cons le0 less_imp_add_positive
      upt_rec)

lemma rap_rounds_round:
  assumes "rap_rounds la n_orient G phi_sig [0..<m] st0 = Inr st" and "k < m"
  shows "\<exists>stk s1. rap_rounds la n_orient G phi_sig [0..<k] st0 = Inr stk
           \<and> rap_round la n_orient G phi_sig k stk = Inr s1
           \<and> rap_rounds la n_orient G phi_sig [Suc k..<m] s1 = Inr st"
proof -
  have split: "[0..<m] = [0..<k] @ [k] @ [Suc k..<m]"
    using assms(2) by (rule upt_split3)
  from assms(1) obtain stk where before: "rap_rounds la n_orient G phi_sig [0..<k] st0 = Inr stk"
    and rest: "rap_rounds la n_orient G phi_sig ([k] @ [Suc k..<m]) stk = Inr st"
    unfolding split rap_rounds_append[of la n_orient G phi_sig "[0..<k]"]
    by (auto split: sum.splits)
  from rest obtain s1 where "rap_round la n_orient G phi_sig k stk = Inr s1"
    and "rap_rounds la n_orient G phi_sig [Suc k..<m] s1 = Inr st"
    by (auto split: sum.splits)
  then show ?thesis using before by blast
qed

section \<open>The loop as a whole\<close>

lemma rap_loop_Inr:
  "rap_loop la free G dat rk n = Inr st \<longleftrightarrow>
     0 \<le> n \<and> rap_rounds la (if free then 3 else 1) G (signal_subspace la dat rk) [0..<nat n]
               (init_state G (signal_subspace la dat rk) (nat n)) = Inr st"
  by (simp add: rap_loop_def Let_def)

lemma init_state_simps [simp]:
  "subcorr_max (init_state G phi n) = Fin (- 1)"
  "active_set (init_state G phi n) = replicate n (- 1)"
  "A_topo (init_state G phi n) = zeros (nrows G) n"
  "G_proj (init_state G phi n) = G"
  "phi_sig_proj (init_state G phi n) = phi"
  by (simp_all add: init_state_def)

lemma rap_loop_returns:
  assumes "0 \<le> n" and "free \<longrightarrow> 0 < ncols G div 3 \<and> oris_fit la 3 (nrows G)"
  shows "\<exists>st. rap_loop la free G dat rk n = Inr st \<and> length (active_set st) = nat n"
proof -
  let ?phi = "signal_subspace la dat rk"
  let ?no = "if free then 3 else 1 :: nat"
  let ?ini = "init_state G ?phi (nat n)"
  have fit: "oris_fit la ?no (nrows G)"
    using assms(2) oris_fit_fixed by simp
  have cand: "?no = 3 \<longrightarrow> 0 < ncols G div ?no"
    using assms(2) by simp
  have "\<exists>st. rap_rounds la ?no G ?phi [0..<nat n] ?ini = Inr st"
    using fit cand by (rule rap_rounds_return) simp_all
  then obtain st where run: "rap_rounds la ?no G ?phi [0..<nat n] ?ini = Inr st" by blast
  have "length (active_set st) = nat n"
    using rap_rounds_keep[OF run] by simp
  moreover have "rap_loop la free G dat rk n = Inr st"
    using run assms(1) by (simp add: rap_loop_Inr)
  ultimately show ?thesis by blast
qed

lemma rap_loop_unbound:
  assumes "0 < n" and "free" and "ncols G div 3 = 0"
  shows "rap_loop la free G dat rk n = Inl NameError"
proof -
  have "[0..<nat n] = 0 # [1..<nat n]" using assms(1) by (simp add: upt_conv_Cons)
  then show ?thesis
    using assms by (simp add: rap_loop_def Let_def rap_round_eq log_ori_eq)
qed

text \<open>
  C9, as the code has it. After the loop the active set has exactly \<open>n_sources\<close>
  entries. Entry \<open>k\<close> is written in round \<open>k\<close> only: it is the index of the first
  candidate to attain the maximal correlation of that round, computed on the working
  leadfield and basis that the rounds before have left, when some candidate of the round has
  a correlation above \<open>-1\<close>, and it stays the initial \<open>-1\<close> otherwise (all
  correlations \<^verbatim>\<open>nan\<close>, or no candidate at all). So an entry is a valid candidate
  index or \<open>-1\<close>; nothing makes the entries distinct. What the caller receives are the
  vertices that the sorted active set indexes: the indices into the vertex list of either
  hemisphere are ascending, and the vertices are ascending when no entry is negative and
  the vertex lists of the forward solution are ascending. An entry \<open>-1\<close> reads the last
  vertex of the left hemisphere, so that the reported list is not ascending.
\<close>

theorem active_set_after_loop:
  assumes "rap_loop la free G dat rk n = Inr st"
  shows "length (active_set st) = nat n
       \<and> (\<forall>k<nat n. \<exists>stk.
            rap_rounds la (if free then 3 else 1) G (signal_subspace la dat rk) [0..<k]
              (init_state G (signal_subspace la dat rk) (nat n)) = Inr stk
          \<and> (\<forall>i<ncols G div (if free then 3 else 1).
               active_set st ! k = int i
                 \<longleftrightarrow> first_max la (if free then 3 else 1) stk
                       (ncols G div (if free then 3 else 1)) i)
          \<and> (active_set st ! k = - 1
               \<longleftrightarrow> (\<forall>i<ncols G div (if free then 3 else 1).
                      \<not> np_gt (corr la (if free then 3 else 1) stk i) (Fin (- 1)))))
       \<and> (\<forall>e \<in> set (active_set st).
             e = - 1 \<or> (0 \<le> e \<and> e < int (ncols G div (if free then 3 else 1))))
       \<and> (\<forall>inp gain dw out. finish la inp gain dw st = Inr out \<longrightarrow>
             vertices out =
               (map (py_get (fst (vertno inp)))
                  (vertno0_index (int (length (fst (vertno inp)))) (sort (active_set st))),
                map (py_get (snd (vertno inp)))
                  (vertno1_index (int (length (fst (vertno inp)))) (sort (active_set st))))
           \<and> sorted (vertno0_index (int (length (fst (vertno inp)))) (sort (active_set st)))
           \<and> sorted (vertno1_index (int (length (fst (vertno inp)))) (sort (active_set st)))
           \<and> ((\<forall>e \<in> set (active_set st). 0 \<le> e)
                 \<and> sorted (fst (vertno inp)) \<and> sorted (snd (vertno inp))
               \<longrightarrow> sorted (fst (vertices out)) \<and> sorted (snd (vertices out))))"
proof -
  let ?phi = "signal_subspace la dat rk"
  let ?no = "if free then 3 else 1 :: nat"
  let ?ini = "init_state G ?phi (nat n)"
  let ?nc = "ncols G div ?no"
  have run: "rap_rounds la ?no G ?phi [0..<nat n] ?ini = Inr st"
    using assms by (simp add: rap_loop_Inr)
  have len: "length (active_set st) = nat n"
    using rap_rounds_keep[OF run] by simp
  have rounds: "\<exists>stk. rap_rounds la ?no G ?phi [0..<k] ?ini = Inr stk
          \<and> (\<forall>i<?nc. active_set st ! k = int i \<longleftrightarrow> first_max la ?no stk ?nc i)
          \<and> (active_set st ! k = - 1
               \<longleftrightarrow> (\<forall>i<?nc. \<not> np_gt (corr la ?no stk i) (Fin (- 1))))"
    if k: "k < nat n" for k
  proof -
    from rap_rounds_round[OF run k] obtain stk s1
      where before: "rap_rounds la ?no G ?phi [0..<k] ?ini = Inr stk"
        and round: "rap_round la ?no G ?phi k stk = Inr s1"
        and after: "rap_rounds la ?no G ?phi [Suc k..<nat n] s1 = Inr st"
      by blast
    have kb: "k < length (active_set stk)" "active_set stk ! k = - 1"
      using rap_rounds_keep[OF before] k by simp_all
    have ka: "active_set st ! k = active_set s1 ! k"
      using rap_rounds_keep[OF after] by simp
    have a: "\<forall>i<?nc. active_set st ! k = int i \<longleftrightarrow> first_max la ?no stk ?nc i"
      unfolding ka using rap_round_entry(1)[OF round kb] by blast
    have b: "active_set st ! k = - 1
               \<longleftrightarrow> (\<forall>i<?nc. \<not> np_gt (corr la ?no stk i) (Fin (- 1)))"
      unfolding ka using round kb by (rule rap_round_entry(2))
    show ?thesis using before a b by blast
  qed
  have valid: "e = - 1 \<or> (0 \<le> e \<and> e < int ?nc)" if "e \<in> set (active_set st)" for e
  proof -
    from that obtain j where j: "j < nat n" and e: "e = active_set st ! j"
      using len by (metis in_set_conv_nth)
    show ?thesis
      using rap_rounds_entries[OF run, of j] j e by simp
  qed
  have reported: "vertices out =
               (map (py_get (fst (vertno inp)))
                  (vertno0_index (int (length (fst (vertno inp)))) (sort (active_set st))),
                map (py_get (snd (vertno inp)))
                  (vertno1_index (int (length (fst (vertno inp)))) (sort (active_set st))))
           \<and> sorted (vertno0_index (int (length (fst (vertno inp)))) (sort (active_set st)))
           \<and> sorted (vertno1_index (int (length (fst (vertno inp)))) (sort (active_set st)))
           \<and> ((\<forall>e \<in> set (active_set st). 0 \<le> e)
                 \<and> sorted (fst (vertno inp)) \<and> sorted (snd (vertno inp))
               \<longrightarrow> sorted (fst (vertices out)) \<and> sorted (snd (vertices out)))"
    if fin: "finish la inp gain dw st = Inr out" for inp gain dw out
  proof -
    let ?L = "int (length (fst (vertno inp)))"
    let ?i0 = "vertno0_index ?L (sort (active_set st))"
    let ?i1 = "vertno1_index ?L (sort (active_set st))"
    have v: "vertices out = (map (py_get (fst (vertno inp))) ?i0, map (py_get (snd (vertno inp))) ?i1)"
      using fin by (rule finish_vertices(1))
    have "\<exists>out. finish la inp gain dw st = Inr out" using fin by blast
    then have r1: "\<forall>i \<in> set ?i1. in_range (length (snd (vertno inp))) i"
      and r0: "\<forall>i \<in> set ?i0. in_range (length (fst (vertno inp))) i"
      unfolding finish_returns by blast+
    have asc: "sorted (fst (vertices out)) \<and> sorted (snd (vertices out))"
      if nn: "\<forall>e \<in> set (active_set st). 0 \<le> e"
        and s0: "sorted (fst (vertno inp))" and s1: "sorted (snd (vertno inp))"
    proof -
      have "\<forall>i \<in> set ?i0. 0 \<le> i \<and> i < int (length (fst (vertno inp)))"
        using r0 nn by (auto simp: vertno_index_set in_range_def)
      then have a: "sorted (map (py_get (fst (vertno inp))) ?i0)"
        using s0 vertno_index_sorted(1) by (intro sorted_lookup) simp_all
      have "\<forall>i \<in> set ?i1. 0 \<le> i \<and> i < int (length (snd (vertno inp)))"
        using r1 by (auto simp: vertno_index_set in_range_def)
      then have b: "sorted (map (py_get (snd (vertno inp))) ?i1)"
        using s1 vertno_index_sorted(2) by (intro sorted_lookup) simp_all
      show ?thesis using a b by (simp add: v)
    qed
    show ?thesis using v vertno_index_sorted asc by blast
  qed
  show ?thesis
  proof (intro conjI)
    show "length (active_set st) = nat n" by (rule len)
  next
    show "\<forall>k<nat n. \<exists>stk.
            rap_rounds la ?no G ?phi [0..<k] ?ini = Inr stk
          \<and> (\<forall>i<?nc. active_set st ! k = int i \<longleftrightarrow> first_max la ?no stk ?nc i)
          \<and> (active_set st ! k = - 1
               \<longleftrightarrow> (\<forall>i<?nc. \<not> np_gt (corr la ?no stk i) (Fin (- 1))))"
      using rounds by blast
  next
    show "\<forall>e \<in> set (active_set st). e = - 1 \<or> (0 \<le> e \<and> e < int ?nc)"
      using valid by blast
  next
    show "\<forall>inp gain dw out. finish la inp gain dw st = Inr out \<longrightarrow>
             vertices out =
               (map (py_get (fst (vertno inp)))
                  (vertno0_index (int (length (fst (vertno inp)))) (sort (active_set st))),
                map (py_get (snd (vertno inp)))
                  (vertno1_index (int (length (fst (vertno inp)))) (sort (active_set st))))
           \<and> sorted (vertno0_index (int (length (fst (vertno inp)))) (sort (active_set st)))
           \<and> sorted (vertno1_index (int (length (fst (vertno inp)))) (sort (active_set st)))
           \<and> ((\<forall>e \<in> set (active_set st). 0 \<le> e)
                 \<and> sorted (fst (vertno inp)) \<and> sorted (snd (vertno inp))
               \<longrightarrow> sorted (fst (vertices out)) \<and> sorted (snd (vertices out)))"
    proof (intro allI impI)
      fix inp gain dw out
      assume "finish la inp gain dw st = Inr out"
      then show "vertices out =
               (map (py_get (fst (vertno inp)))
                  (vertno0_index (int (length (fst (vertno inp)))) (sort (active_set st))),
                map (py_get (snd (vertno inp)))
                  (vertno1_index (int (length (fst (vertno inp)))) (sort (active_set st))))
           \<and> sorted (vertno0_index (int (length (fst (vertno inp)))) (sort (active_set st)))
           \<and> sorted (vertno1_index (int (length (fst (vertno inp)))) (sort (active_set st)))
           \<and> ((\<forall>e \<in> set (active_set st). 0 \<le> e)
                 \<and> sorted (fst (vertno inp)) \<and> sorted (snd (vertno inp))
               \<longrightarrow> sorted (fst (vertices out)) \<and> sorted (snd (vertices out)))"
        by (rule reported)
    qed
  qed
qed

text \<open>
  C3, as the code has it. There is no configuration check: \<open>n_sources\<close> is not
  compared with the number of candidate blocks, nor \<open>r\<close> with the number of channels.
  An \<open>r\<close> that exceeds the number of eigenvectors is clipped by the slice: the signal
  subspace is then all the eigenvectors and the run is the one for \<open>r\<close> equal to their
  number. A fixed-orientation run performs all its \<open>n_sources\<close> rounds and returns an
  active set of \<open>n_sources\<close> entries whatever the number of candidates, and so does a
  free-orientation run that has at least one candidate block and whose orientations have
  three components. What the loop raises is no check of the configuration: a negative
  \<open>n_sources\<close> makes \<^verbatim>\<open>np.zeros\<close> raise, and a free-orientation run of at
  least one round on a leadfield without a single candidate block reads an unbound
  variable in its log line.
\<close>

theorem no_configuration_check:
  "(wf (snd (eigh la (dot dat (tr dat)))) \<and> int (ncols (snd (eigh la (dot dat (tr dat))))) \<le> rk
        \<longrightarrow> signal_subspace la dat rk = snd (eigh la (dot dat (tr dat)))
          \<and> rap_loop la free G dat rk n
            = rap_loop la free G dat (int (ncols (snd (eigh la (dot dat (tr dat)))))) n)
   \<and> (0 \<le> n \<and> (free \<longrightarrow> 0 < ncols G div 3 \<and> oris_fit la 3 (nrows G))
        \<longrightarrow> (\<exists>st. rap_loop la free G dat rk n = Inr st \<and> length (active_set st) = nat n))
   \<and> (n < 0 \<longrightarrow> rap_loop la free G dat rk n = Inl ValueError)
   \<and> (0 < n \<and> free \<and> ncols G div 3 = 0 \<longrightarrow> rap_loop la free G dat rk n = Inl NameError)"
proof -
  have b: "signal_subspace la dat r' = snd (eigh la (dot dat (tr dat)))"
    if "wf (snd (eigh la (dot dat (tr dat))))"
      and "int (ncols (snd (eigh la (dot dat (tr dat))))) \<le> r'" for r'
    using that by (auto simp: signal_subspace_def slice_from_all split: prod.splits)
  have c: "rap_loop la free G dat rk n
            = rap_loop la free G dat (int (ncols (snd (eigh la (dot dat (tr dat)))))) n"
    if "wf (snd (eigh la (dot dat (tr dat))))"
      and "int (ncols (snd (eigh la (dot dat (tr dat))))) \<le> rk"
    using b[OF that] b[OF that(1), of "int (ncols (snd (eigh la (dot dat (tr dat)))))"]
    by (simp add: rap_loop_def)
  have d: "\<exists>st. rap_loop la free G dat rk n = Inr st \<and> length (active_set st) = nat n"
    if "0 \<le> n \<and> (free \<longrightarrow> 0 < ncols G div 3 \<and> oris_fit la 3 (nrows G))"
    using that rap_loop_returns by blast
  have e: "rap_loop la free G dat rk n = Inl ValueError" if "n < 0"
    using that by (simp add: rap_loop_def Let_def)
  have f: "rap_loop la free G dat rk n = Inl NameError"
    if "0 < n \<and> free \<and> ncols G div 3 = 0"
    using that rap_loop_unbound by blast
  show ?thesis using b c d e f by blast
qed

text \<open>
  Which leadfield the recorded topography comes from: the column recorded in round \<open>k\<close>
  for the winning candidate \<open>i\<close> is the block of \<open>i\<close> in the working leadfield of that
  round times the winning orientation. The working leadfield is the whitened leadfield
  \<open>G\<close> in round \<open>0\<close> and, in a later round, \<open>G\<close> deflated by the projector built
  from the columns recorded in the rounds before.
\<close>

lemma topography_from_working_leadfield:
  assumes "rap_loop la free G dat rk n = Inr st" and "k < nat n"
    and "active_set st ! k = int i"
  shows "\<exists>stk. rap_rounds la (if free then 3 else 1) G (signal_subspace la dat rk) [0..<k]
               (init_state G (signal_subspace la dat rk) (nat n)) = Inr stk
       \<and> G_proj stk = (if k = 0 then G else dot (compute_proj la (cols (A_topo stk) 0 k)) G)
       \<and> (\<forall>row<nrows G. ent (A_topo st) row k =
             dotv (block (if free then 3 else 1) (G_proj stk) i)
               (snd (compute_subcorr la (block (if free then 3 else 1) (G_proj stk) i)
                      (phi_sig_proj stk))) ! row)"
proof -
  let ?phi = "signal_subspace la dat rk"
  let ?no = "if free then 3 else 1 :: nat"
  let ?ini = "init_state G ?phi (nat n)"
  let ?R = "rap_rounds la ?no G ?phi"
  have run: "?R [0..<nat n] ?ini = Inr st"
    using assms(1) by (simp add: rap_loop_Inr)
  have split: "[0..<nat n] = [0..<k] @ [k] @ [Suc k..<nat n]"
    using assms(2) by (rule upt_split3)
  from run obtain stk where before: "?R [0..<k] ?ini = Inr stk"
    and rest: "?R ([k] @ [Suc k..<nat n]) stk = Inr st"
    unfolding split rap_rounds_append[of la ?no G ?phi "[0..<k]"]
    by (auto split: sum.splits)
  from rest obtain s1 where round: "rap_round la ?no G ?phi k stk = Inr s1"
    and after: "?R [Suc k..<nat n] s1 = Inr st"
    by (auto split: sum.splits)
  have kb: "length (active_set stk) = nat n" "nrows (A_topo stk) = nrows G"
    "ncols (A_topo stk) = nat n" "active_set stk ! k = - 1"
    using rap_rounds_keep[OF before] assms(2) by simp_all
  have ka: "active_set st ! k = active_set s1 ! k"
    "\<forall>row<nrows G. ent (A_topo st) row k = ent (A_topo s1) row k"
    using rap_rounds_keep[OF after] rap_round_keeps(2,3)[OF round] kb assms(2) by simp_all
  have won: "active_set s1 = (active_set stk)[k := int i]
           \<and> A_topo s1 = set_col (A_topo stk) k (topo la ?no stk i)"
  proof -
    from rap_round_effect(3)[OF round]
    consider "active_set s1 = active_set stk"
      | j where "active_set s1 = (active_set stk)[k := int j]"
        "A_topo s1 = set_col (A_topo stk) k (topo la ?no stk j)"
      by blast
    then show ?thesis
    proof cases
      case 1
      then show ?thesis using ka(1) kb(4) assms(3) by simp
    next
      case 2
      then have "int j = int i" using ka(1) kb(1) assms(2,3) by simp
      then show ?thesis using 2 by simp
    qed
  qed
  have col: "\<forall>row<nrows G. ent (A_topo st) row k = topo la ?no stk i ! row"
    using ka(2) won kb assms(2) by (simp add: ent_set_col_same)
  have gp: "G_proj stk = (if k = 0 then G else dot (compute_proj la (cols (A_topo stk) 0 k)) G)"
  proof (cases k)
    case 0
    then show ?thesis using before by auto
  next
    case (Suc k')
    have "[0..<k] = [0..<k'] @ [k']" using Suc by simp
    with before obtain s' where "rap_round la ?no G ?phi k' s' = Inr stk"
      unfolding rap_rounds_append[of la ?no G ?phi "[0..<k']"]
      by (auto simp: rap_rounds_append split: sum.splits)
    from rap_round_effect(1)[OF this] show ?thesis using Suc by simp
  qed
  show ?thesis
    using before gp col by (auto simp: topo_def)
qed

section \<open>The hemisphere of a selected index\<close>

text \<open>
  C10. With \<open>L\<close> vertices in the left hemisphere and \<open>R\<close> in the right, an index
  \<open>i\<close> of the sorted active set is looked up in the right hemisphere, at position
  \<open>i - L\<close>, exactly when \<open>L < i\<close>, and in the left hemisphere, at position \<open>i\<close>,
  otherwise. So position \<open>0\<close> of the right hemisphere is never asked for, and the index
  \<open>L\<close> itself stays among the left-hemisphere indices, where position \<open>L\<close> is one
  past the end: the lookup raises \<^verbatim>\<open>IndexError\<close>. The function returns exactly when
  every index \<open>i\<close> has \<open>-L \<le> i < L\<close> or \<open>L < i < L + R\<close> (and, when the residual
  is asked for, is a column index of the leadfield), and then with the vertices that this
  split reads.
\<close>

theorem hemisphere_split_off_by_one:
  assumes "L = int (length (fst (vertno inp)))" and "R = int (length (snd (vertno inp)))"
  shows "set (vertno1_index L (sort (active_set st)))
           = (\<lambda>i. i - L) ` {i \<in> set (active_set st). L < i}
       \<and> set (vertno0_index L (sort (active_set st))) = {i \<in> set (active_set st). i \<le> L}
       \<and> 0 \<notin> set (vertno1_index L (sort (active_set st)))
       \<and> (L \<in> set (active_set st) \<longrightarrow>
             L \<in> set (vertno0_index L (sort (active_set st)))
           \<and> py_index (length (fst (vertno inp))) L = Inl IndexError
           \<and> py_take (fst (vertno inp)) (vertno0_index L (sort (active_set st))) = Inl IndexError
           \<and> finish la inp gain dw st = Inl IndexError)
       \<and> ((\<exists>out. finish la inp gain dw st = Inr out) \<longleftrightarrow>
             (return_residual inp \<longrightarrow> (\<forall>i \<in> set (active_set st). in_range (ncols gain) i))
           \<and> (\<forall>i \<in> set (active_set st). (- L \<le> i \<and> i < L) \<or> (L < i \<and> i < L + R)))
       \<and> (\<forall>out. finish la inp gain dw st = Inr out \<longrightarrow>
             vertices out =
               (map (py_get (fst (vertno inp))) (filter (\<lambda>i. i \<le> L) (sort (active_set st))),
                map (\<lambda>i. snd (vertno inp) ! nat (i - L))
                  (filter (\<lambda>i. L < i) (sort (active_set st)))))"
proof -
  let ?i0 = "vertno0_index L (sort (active_set st))"
  let ?i1 = "vertno1_index L (sort (active_set st))"
  have zero: "0 \<notin> set ?i1"
    by (auto simp: vertno_index_set)
  have at_L: "L \<in> set ?i0
           \<and> py_index (length (fst (vertno inp))) L = Inl IndexError
           \<and> py_take (fst (vertno inp)) ?i0 = Inl IndexError
           \<and> finish la inp gain dw st = Inl IndexError"
    if mem: "L \<in> set (active_set st)"
  proof -
    have m: "L \<in> set ?i0" using mem by (simp add: vertno_index_set)
    have t: "py_take (fst (vertno inp)) ?i0 = Inl IndexError"
      using py_indices_mem[of "length (fst (vertno inp))" ?i0] m assms(1)
      by (simp add: py_take_def)
    have "\<not> in_range (length (fst (vertno inp))) L"
      using assms(1) by (simp add: in_range_def)
    then have "\<not> (\<exists>out. finish la inp gain dw st = Inr out)"
      unfolding finish_returns using m assms(1) by blast
    then obtain e where "finish la inp gain dw st = Inl e"
      by (cases "finish la inp gain dw st") auto
    then have "finish la inp gain dw st = Inl IndexError"
      using finish_err by blast
    then show ?thesis using m t assms(1) py_index_len by simp
  qed
  have returns: "(\<exists>out. finish la inp gain dw st = Inr out) \<longleftrightarrow>
             (return_residual inp \<longrightarrow> (\<forall>i \<in> set (active_set st). in_range (ncols gain) i))
           \<and> (\<forall>i \<in> set (active_set st). (- L \<le> i \<and> i < L) \<or> (L < i \<and> i < L + R))"
    unfolding finish_returns
    using vertno_index_range[OF assms, of "active_set st"] assms(1) by blast
  have read: "vertices out =
               (map (py_get (fst (vertno inp))) (filter (\<lambda>i. i \<le> L) (sort (active_set st))),
                map (\<lambda>i. snd (vertno inp) ! nat (i - L))
                  (filter (\<lambda>i. L < i) (sort (active_set st))))"
    if "finish la inp gain dw st = Inr out" for out
  proof -
    have "map (py_get (snd (vertno inp))) ?i1
        = map (\<lambda>i. snd (vertno inp) ! nat (i - L)) (filter (\<lambda>i. L < i) (sort (active_set st)))"
      by (simp add: vertno1_index_def py_get_def)
    then show ?thesis
      using finish_vertices(1)[OF that] assms(1) by (simp add: vertno0_index_def)
  qed
  show ?thesis
    using vertno_index_set[of L "active_set st"] zero at_L returns read by blast
qed

section \<open>Candidates of norm zero\<close>

lemma zero_column_products:
  assumes "ncols G = 1" and "\<forall>i<nrows G. ent G i 0 = 0"
  shows "ent (dot (dot (tr G) phi) (dot (tr phi) G)) 0 0 = 0"
    and "ent (dot (tr G) G) 0 0 = 0"
proof -
  have "ent (dot (tr G) phi) 0 k = 0" if "k < ncols phi" for k
    using that assms by (simp add: ent_dot)
  then show "ent (dot (dot (tr G) phi) (dot (tr phi) G)) 0 0 = 0"
    using assms by (simp add: ent_dot)
  show "ent (dot (tr G) G) 0 0 = 0"
    using assms by (simp add: ent_dot)
qed

text \<open>
  C4, as the code has it. The single-orientation correlation divides by \<open>G\<^sup>T G\<close>
  directly; no pseudoinverse takes part in it. For a topography of norm zero the quotient is
  \<open>0/0\<close>, which numpy evaluates to \<^verbatim>\<open>nan\<close> without raising: the
  correlation of that candidate is \<^verbatim>\<open>nan\<close>, the pass of the inner loop leaves
  the variables as they are, since every comparison with \<^verbatim>\<open>nan\<close> is false, and
  neither a round of a fixed-orientation run, on a working leadfield of the width of the
  leadfield, nor the fixed-orientation loop as a whole raises.
\<close>

theorem zero_norm_candidate_is_nan:
  assumes "ncols G = 1" and "\<forall>i<nrows G. ent G i 0 = 0"
  shows "compute_subcorr la G phi = (NaN, [1])
       \<and> compute_subcorr (la\<lparr>pinv := p\<rparr>) G phi = compute_subcorr la G phi
       \<and> (block n_orient (G_proj st) i = G \<and> phi_sig_proj st = phi
            \<longrightarrow> search_step la n_orient k st i = Inr st)
       \<and> (ncols (G_proj st) = ncols G0 \<longrightarrow> (\<exists>st'. rap_round la 1 G0 phi0 k st = Inr st'))
       \<and> (0 \<le> n \<longrightarrow> (\<exists>st'. rap_loop la False G0 dat rk n = Inr st'))"
proof -
  have a: "compute_subcorr la G phi = (NaN, [1])"
    using assms zero_column_products(1)[OF assms, of phi] zero_column_products(2)[OF assms]
    by (simp add: compute_subcorr_eq np_div_def)
  have b: "compute_subcorr (la\<lparr>pinv := p\<rparr>) G phi = compute_subcorr la G phi"
    by (simp add: compute_subcorr_eq)
  have c: "search_step la n_orient k st i = Inr st"
    if "block n_orient (G_proj st) i = G" "phi_sig_proj st = phi"
    using that a by (simp add: search_step_eq corr_def)
  have d: "\<exists>st'. rap_round la 1 G0 phi0 k st = Inr st'" if "ncols (G_proj st) = ncols G0"
    using oris_fit_fixed that by (rule rap_round_returns) simp
  have e: "\<exists>st'. rap_loop la False G0 dat rk n = Inr st'" if "0 \<le> n"
    using rap_loop_returns[OF that, of False G0 la dat rk] by auto
  show ?thesis using a b c d e by blast
qed

section \<open>The projector\<close>

lemma gram_symmetric: "wf M \<Longrightarrow> tr (dot (tr M) M) = dot (tr M) M"
  by (simp add: tr_dot tr_tr)

lemma generalized_inverse_restores:
  assumes wf: "wf M" and X: "wf X" "nrows X = ncols M" "ncols X = ncols M"
    and p1: "dot (dot (dot (tr M) M) X) (dot (tr M) M) = dot (tr M) M"
  shows "dot (dot M X) (dot (tr M) M) = M"
proof -
  let ?G = "dot (tr M) M"
  let ?Y = "dot (dot M X) ?G"
  let ?E = "msub M ?Y"
  have G: "tr ?G = ?G" using wf by (rule gram_symmetric)
  have trY: "tr ?Y = dot ?G (dot (tr X) (tr M))"
    using X G by (simp add: tr_dot)
  have trE: "tr ?E = msub (tr M) (dot ?G (dot (tr X) (tr M)))"
    using X trY by (simp add: tr_msub)
  have a: "dot (tr M) ?Y = ?G"
  proof -
    have "dot (tr M) ?Y = dot (dot ?G X) ?G"
      using X by (simp add: dot_assoc)
    then show ?thesis using p1 by simp
  qed
  have b: "dot (dot ?G (dot (tr X) (tr M))) ?Y = dot (dot ?G (dot (tr X) (tr M))) M"
  proof -
    have "dot (dot ?G (dot (tr X) (tr M))) ?Y = dot (dot ?G (tr X)) (dot (tr M) ?Y)"
      using X by (simp add: dot_assoc)
    also have "\<dots> = dot (dot ?G (tr X)) ?G" using a by simp
    also have "\<dots> = dot (dot ?G (dot (tr X) (tr M))) M"
      using X by (simp add: dot_assoc)
    finally show ?thesis .
  qed
  have "dot (tr ?E) ?E = msub (dot (tr M) ?E) (dot (dot ?G (dot (tr X) (tr M))) ?E)"
    using X by (simp add: trE dot_msub_left)
  also have "dot (tr M) ?E = msub ?G (dot (tr M) ?Y)"
    using X by (simp add: dot_msub_right)
  also have "dot (dot ?G (dot (tr X) (tr M))) ?E
      = msub (dot (dot ?G (dot (tr X) (tr M))) M) (dot (dot ?G (dot (tr X) (tr M))) ?Y)"
    using X by (simp add: dot_msub_right)
  finally have "dot (tr ?E) ?E = zeros (ncols M) (ncols M)"
    using a b by (simp add: msub_self)
  then have "?E = zeros (nrows M) (ncols M)"
    using gram_zero[of ?E] by simp
  then show ?thesis
    using msub_zero_eq[of M ?Y] wf by simp
qed

lemma projector_parts:
  assumes wf: "wf M" and X: "wf X" "nrows X = ncols M" "ncols X = ncols M"
    and p1: "dot (dot (dot (tr M) M) X) (dot (tr M) M) = dot (tr M) M"
  shows "dot (dot (dot M X) (tr M)) M = M"
    and "dot (dot (dot M X) (tr M)) (dot (dot M X) (tr M)) = dot (dot M X) (tr M)"
    and "tr (dot (dot M X) (tr M)) = dot (dot M X) (tr M)"
proof -
  let ?G = "dot (tr M) M"
  let ?Q = "dot (dot M X) (tr M)"
  have r: "dot (dot M X) ?G = M"
    using wf X p1 by (rule generalized_inverse_restores)
  show a: "dot ?Q M = M"
    using X r by (simp add: dot_assoc)
  have "dot ?Q (dot M X) = dot M X"
    using a X by (simp add: dot_assoc[symmetric])
  then show "dot ?Q ?Q = ?Q"
    using X by (simp add: dot_assoc[of ?Q "dot M X" "tr M", symmetric])
  have G: "tr ?G = ?G" using wf by (rule gram_symmetric)
  have "tr (dot (dot M X) ?G) = tr M" using r by simp
  then have rt: "dot ?G (dot (tr X) (tr M)) = tr M"
    using X G by (simp add: tr_dot)
  have "?Q = dot (dot M X) (dot ?G (dot (tr X) (tr M)))"
    using rt by simp
  also have "\<dots> = dot (dot (dot M X) ?G) (dot (tr X) (tr M))"
    using X by (simp add: dot_assoc)
  also have "\<dots> = dot M (dot (tr X) (tr M))"
    using r by simp
  also have "\<dots> = tr ?Q"
    using X wf by (simp add: tr_dot tr_tr)
  finally show "tr ?Q = ?Q" by simp
qed

lemma compute_proj_props:
  assumes "wf M" and "moore_penrose (dot (tr M) M) (pinv la (dot (tr M) M))"
  shows "tr (compute_proj la M) = compute_proj la M"
    and "dot (compute_proj la M) (compute_proj la M) = compute_proj la M"
    and "dot (compute_proj la M) M = zeros (nrows M) (ncols M)"
    and "wf (compute_proj la M)" "nrows (compute_proj la M) = nrows M"
      "ncols (compute_proj la M) = nrows M"
proof -
  let ?X = "pinv la (dot (tr M) M)"
  let ?Q = "dot (dot M ?X) (tr M)"
  let ?I = "identity (nrows M)"
  have X: "wf ?X" "nrows ?X = ncols M" "ncols ?X = ncols M"
    and p1: "dot (dot (dot (tr M) M) ?X) (dot (tr M) M) = dot (tr M) M"
    using assms(2) by (simp_all add: moore_penrose_def)
  note q = projector_parts[OF assms(1) X p1]
  have P: "compute_proj la M = msub ?I ?Q" by (simp add: compute_proj_eq)
  show "wf (compute_proj la M)" "nrows (compute_proj la M) = nrows M"
      "ncols (compute_proj la M) = nrows M"
    by (simp_all add: P)
  show "tr (compute_proj la M) = compute_proj la M"
    using q(3) by (simp add: P tr_msub tr_identity)
  have QP: "dot ?Q (msub ?I ?Q) = zeros (nrows M) (nrows M)"
    using q(2) dot_identity_right[of ?Q] msub_self[of ?Q] by (simp add: dot_msub_right)
  have "dot (msub ?I ?Q) (msub ?I ?Q) = msub (dot ?I (msub ?I ?Q)) (dot ?Q (msub ?I ?Q))"
    by (simp add: dot_msub_left)
  also have "\<dots> = msub (msub ?I ?Q) (zeros (nrows M) (nrows M))"
    using dot_identity_left[of "msub ?I ?Q"] QP by simp
  also have "\<dots> = msub ?I ?Q"
    using msub_zeros[of "msub ?I ?Q"] by simp
  finally show "dot (compute_proj la M) (compute_proj la M) = compute_proj la M"
    by (simp add: P)
  have "dot (msub ?I ?Q) M = msub (dot ?I M) (dot ?Q M)"
    by (simp add: dot_msub_left)
  also have "\<dots> = msub M M"
    using q(1) dot_identity_left[OF assms(1)] by simp
  finally show "dot (compute_proj la M) M = zeros (nrows M) (ncols M)"
    by (simp add: P msub_self)
qed

text \<open>
  C6. The matrix that \<^verbatim>\<open>_compute_proj\<close> builds from the topography columns \<open>A\<close>
  with the Moore-Penrose pseudoinverse of \<open>A\<^sup>T A\<close> is symmetric, idempotent, and
  annihilates the columns of \<open>A\<close>, whether \<open>A\<^sup>T A\<close> is singular or not.
\<close>

theorem projector_symmetric_idempotent_annihilating:
  assumes "wf A" and "moore_penrose (dot (tr A) A) (pinv la (dot (tr A) A))"
  shows "tr (compute_proj la A) = compute_proj la A
       \<and> dot (compute_proj la A) (compute_proj la A) = compute_proj la A
       \<and> dot (compute_proj la A) A = zeros (nrows A) (ncols A)"
  using compute_proj_props(1,2,3)[OF assms] by blast

section \<open>The subspace correlation\<close>

lemma nrm2_tr_dot:
  assumes "ncols B = nrows x"
  shows "nrm2 (dot B x) = ent (dot (dot (tr x) (tr B)) (dot B x)) 0 0"
  using assms by (simp add: nrm2_def tr_dot)

lemma bessel:
  assumes R: "wf R" "ncols R = nrows R" "tr R = R" "dot R R = R"
    and y: "wf y" "nrows y = nrows R" "ncols y = 1"
  shows "nrm2 (dot R y) \<le> nrm2 y"
    and "ent (dot (tr y) (dot R y)) 0 0 = nrm2 (dot R y)"
proof -
  let ?X = "dot (tr y) (dot R y)"
  let ?z = "msub y (dot R y)"
  have t: "tr (dot R y) = dot (tr y) R"
    using R y by (simp add: tr_dot)
  have rr: "dot (dot (tr y) R) (dot R y) = ?X"
  proof -
    have "dot (dot R R) y = dot R (dot R y)"
      using R(2) by (rule dot_assoc)
    then have "dot R (dot R y) = dot R y" unfolding R(4) by simp
    moreover have "dot (dot (tr y) R) (dot R y) = dot (tr y) (dot R (dot R y))"
      using R y by (simp add: dot_assoc)
    ultimately show ?thesis by simp
  qed
  show n: "ent ?X 0 0 = nrm2 (dot R y)"
    by (simp add: nrm2_def t rr)
  have tz: "tr ?z = msub (tr y) (dot (tr y) R)"
    using y R t by (simp add: tr_msub)
  have "dot (tr ?z) ?z = msub (dot (tr y) ?z) (dot (dot (tr y) R) ?z)"
    using y R by (simp add: tz dot_msub_left)
  also have "dot (tr y) ?z = msub (dot (tr y) y) ?X"
    using y R by (simp add: dot_msub_right)
  also have "dot (dot (tr y) R) ?z = msub (dot (dot (tr y) R) y) (dot (dot (tr y) R) (dot R y))"
    using y R by (simp add: dot_msub_right)
  also have "dot (dot (tr y) R) y = ?X"
    using y R by (simp add: dot_assoc)
  finally have "dot (tr ?z) ?z = msub (msub (dot (tr y) y) ?X) (msub ?X ?X)"
    by (simp add: rr)
  then have "nrm2 ?z = nrm2 y - ent ?X 0 0"
    using y by (simp add: nrm2_def)
  moreover have "0 \<le> nrm2 ?z" using y by (simp add: nrm2_nonneg)
  ultimately show "nrm2 (dot R y) \<le> nrm2 y" using n by simp
qed

lemma outer_projector:
  assumes "wf Phi" and "dot (tr Phi) Phi = identity (ncols Phi)"
  shows "tr (dot Phi (tr Phi)) = dot Phi (tr Phi)"
    and "dot (dot Phi (tr Phi)) (dot Phi (tr Phi)) = dot Phi (tr Phi)"
proof -
  show "tr (dot Phi (tr Phi)) = dot Phi (tr Phi)"
    using assms(1) by (simp add: tr_dot tr_tr)
  have "dot (dot Phi (tr Phi)) (dot Phi (tr Phi)) = dot Phi (dot (dot (tr Phi) Phi) (tr Phi))"
    by (simp add: dot_assoc)
  also have "\<dots> = dot Phi (tr Phi)"
    using assms(2) dot_identity_left[of "tr Phi"] by simp
  finally show "dot (dot Phi (tr Phi)) (dot Phi (tr Phi)) = dot Phi (tr Phi)" .
qed

lemma contraction:
  assumes Phi: "wf Phi" "dot (tr Phi) Phi = identity (ncols Phi)"
    and P: "wf P" "nrows P = nrows Phi" "ncols P = nrows Phi" "tr P = P" "dot P P = P"
    and x: "wf x" "nrows x = nrows Phi" "ncols x = 1"
  shows "nrm2 (dot (tr (dot P Phi)) x) \<le> nrm2 x"
proof -
  let ?R = "dot Phi (tr Phi)"
  let ?y = "dot P x"
  have "dot (tr (dot P Phi)) x = dot (tr Phi) ?y"
    using P by (simp add: tr_dot dot_assoc)
  then have "nrm2 (dot (tr (dot P Phi)) x) = ent (dot (dot (tr ?y) Phi) (dot (tr Phi) ?y)) 0 0"
    using Phi P x by (simp add: nrm2_def tr_dot[of "tr Phi"] tr_tr)
  also have "dot (dot (tr ?y) Phi) (dot (tr Phi) ?y) = dot (tr ?y) (dot ?R ?y)"
    using P x by (simp add: dot_assoc)
  also have "ent (dot (tr ?y) (dot ?R ?y)) 0 0 = nrm2 (dot ?R ?y)"
    using bessel(2)[of ?R ?y] outer_projector[OF Phi] P x by simp
  also have "\<dots> \<le> nrm2 ?y"
    using bessel(1)[of ?R ?y] outer_projector[OF Phi] P x by simp
  also have "\<dots> \<le> nrm2 x"
    using bessel(1)[of P x] P x by simp
  finally show ?thesis .
qed

lemma isometry:
  assumes "wf v" "nrows v = ncols Q" and "dot (tr Q) Q = identity (ncols Q)"
  shows "nrm2 (dot Q v) = nrm2 v"
proof -
  have "dot (dot (tr v) (tr Q)) (dot Q v) = dot (tr v) (dot (dot (tr Q) Q) v)"
    using assms(2) by (simp add: dot_assoc)
  also have "\<dots> = dot (tr v) v"
    using assms dot_identity_left[of v] by simp
  finally show ?thesis
    using assms(2) by (simp add: nrm2_tr_dot) (simp add: nrm2_def)
qed

lemma eigen_rayleigh:
  assumes "eigenvector M \<mu> x" and "nrm2 x = 1"
  shows "\<mu> = ent (dot (tr x) (dot M x)) 0 0"
proof -
  have x: "ncols x = 1" "dot M x = smult \<mu> x"
    using assms(1) by (simp_all add: eigenvector_def)
  have "ent (dot (tr x) (smult \<mu> x)) 0 0 = (\<Sum>k<nrows x. ent x k 0 * (\<mu> * ent x k 0))"
    using x by (simp add: ent_dot)
  also have "\<dots> = \<mu> * (\<Sum>k<nrows x. (ent x k 0)\<^sup>2)"
    by (simp add: sum_distrib_left power2_eq_square mult.left_commute)
  also have "\<dots> = \<mu> * nrm2 x"
    using x by (simp add: nrm2_sum)
  finally show ?thesis using x assms(2) by simp
qed

lemma gram_rayleigh:
  assumes "ncols B = nrows x"
  shows "ent (dot (tr x) (dot (dot (tr B) B) x)) 0 0 = nrm2 (dot B x)"
proof -
  have "dot (tr x) (dot (dot (tr B) B) x) = dot (dot (tr x) (tr B)) (dot B x)"
    using assms by (simp add: dot_assoc)
  then show ?thesis using assms by (simp add: nrm2_tr_dot)
qed

lemma col_mat_last_col:
  assumes "0 < ncols V"
  shows "col_mat (last_col V) = cols V (ncols V - 1) (ncols V - 1 + 1)"
  using assms by (auto simp: col_mat_def last_col_def cols_def intro!: mk_cong)

lemma sorted_le_last:
  assumes "sorted xs" and "x \<in> set xs"
  shows "x \<le> (last xs :: real)"
proof -
  from assms(2) obtain i where i: "i < length xs" "x = xs ! i"
    by (metis in_set_conv_nth)
  then have "xs \<noteq> []" by auto
  then have "last xs = xs ! (length xs - 1)" by (rule last_conv_nth)
  moreover have "xs ! i \<le> xs ! (length xs - 1)"
    using assms(1) i by (intro sorted_nth_mono) auto
  ultimately show ?thesis using i by simp
qed

lemma top_eigenpair:
  assumes c: "eigh_contract M (eigh la M)" and pos: "0 < nrows M"
  shows "eigenvector M (last (fst (eigh la M))) (col_mat (last_col (snd (eigh la M))))"
    and "nrm2 (col_mat (last_col (snd (eigh la M)))) = 1"
    and "\<forall>\<mu> x. eigenvector M \<mu> x \<longrightarrow> \<mu> \<le> last (fst (eigh la M))"
proof -
  let ?vals = "fst (eigh la M)"
  let ?V = "snd (eigh la M)"
  let ?w = "nrows M"
  have len: "length ?vals = ?w" and V: "ncols ?V = ?w" and srt: "sorted ?vals"
    and pairs: "\<forall>j<?w. eigenvector M (?vals ! j) (cols ?V j (j + 1))
                     \<and> nrm2 (cols ?V j (j + 1)) = 1"
    and all: "\<forall>\<mu> x. eigenvector M \<mu> x \<longrightarrow> \<mu> \<in> set ?vals"
    using c by (simp_all add: eigh_contract_def)
  have l: "last ?vals = ?vals ! (?w - 1)"
    using len pos by (metis last_conv_nth length_0_conv less_numeral_extra(3))
  have cm: "col_mat (last_col ?V) = cols ?V (?w - 1) (?w - 1 + 1)"
    using col_mat_last_col[of ?V] V pos by simp
  have "?w - 1 < ?w" using pos by simp
  then have "eigenvector M (?vals ! (?w - 1)) (cols ?V (?w - 1) (?w - 1 + 1))
      \<and> nrm2 (cols ?V (?w - 1) (?w - 1 + 1)) = 1"
    using pairs by blast
  then show "eigenvector M (last ?vals) (col_mat (last_col ?V))"
    and "nrm2 (col_mat (last_col ?V)) = 1"
    unfolding l cm by blast+
  show "\<forall>\<mu> x. eigenvector M \<mu> x \<longrightarrow> \<mu> \<le> last ?vals"
    using all srt sorted_le_last by blast
qed

lemma free_gram_top:
  assumes q: "wf (qr_reduced la G)" "0 < ncols (qr_reduced la G)"
    and phi: "wf phi" "nrows phi = nrows (qr_reduced la G)"
    and c: "eigh_contract (free_gram la G phi) (eigh la (free_gram la G phi))"
  shows "last (fst (eigh la (free_gram la G phi)))
       = nrm2 (dot (dot (tr phi) (qr_reduced la G))
                 (col_mat (last_col (snd (eigh la (free_gram la G phi))))))"
proof -
  let ?Q = "qr_reduced la G"
  let ?M = "free_gram la G phi"
  let ?B = "dot (tr phi) ?Q"
  let ?v = "col_mat (last_col (snd (eigh la ?M)))"
  have shape: "nrows ?M = ncols ?Q" "ncols ?M = ncols ?Q"
    by (simp_all add: free_gram_def)
  have M: "?M = dot (tr ?B) ?B"
    using phi by (simp add: free_gram_def tr_dot tr_tr)
  have ev: "eigenvector ?M (last (fst (eigh la ?M))) ?v" and unit: "nrm2 ?v = 1"
    using top_eigenpair(1,2)[OF c] q shape by simp_all
  have v: "nrows ?v = ncols ?Q" using ev shape by (simp add: eigenvector_def)
  have "last (fst (eigh la ?M)) = ent (dot (tr ?v) (dot ?M ?v)) 0 0"
    using ev unit by (rule eigen_rayleigh)
  also have "\<dots> = nrm2 (dot ?B ?v)"
  proof -
    have "ent (dot (tr ?v) (dot (dot (tr ?B) ?B) ?v)) 0 0 = nrm2 (dot ?B ?v)"
      using v by (intro gram_rayleigh) simp
    then show ?thesis by (simp only: M[symmetric])
  qed
  finally show ?thesis .
qed

text \<open>
  C2. For a three-column block \<open>G\<close>, with \<open>Ug\<close> the orthonormal factor of a reduced QR
  decomposition of \<open>G\<close> and \<open>M = Ug\<^sup>T \<Phi> \<Phi>\<^sup>T Ug\<close>, the correlation returned is the
  square root of the last eigenvalue that \<^verbatim>\<open>eigh\<close> returns for \<open>M\<close>, which is the
  largest eigenvalue of \<open>M\<close>, and the orientation returned is the last column of the
  eigenvectors, a unit-norm eigenvector of \<open>M\<close> for that eigenvalue.
\<close>

theorem free_orientation_top_eigenpair:
  assumes "ncols G = 3" and "qr_contract G (qr_reduced la G)"
    and "wf phi" and "nrows phi = nrows G"
    and "eigh_contract (free_gram la G phi) (eigh la (free_gram la G phi))"
  shows "free_gram la G phi
           = dot (dot (tr (qr_reduced la G)) phi) (dot (tr phi) (qr_reduced la G))
       \<and> fst (compute_subcorr la G phi) = Fin (sqrt (last (fst (eigh la (free_gram la G phi)))))
       \<and> snd (compute_subcorr la G phi) = last_col (snd (eigh la (free_gram la G phi)))
       \<and> eigenvector (free_gram la G phi) (last (fst (eigh la (free_gram la G phi))))
           (col_mat (snd (compute_subcorr la G phi)))
       \<and> nrm2 (col_mat (snd (compute_subcorr la G phi))) = 1
       \<and> (\<forall>\<mu> x. eigenvector (free_gram la G phi) \<mu> x
             \<longrightarrow> \<mu> \<le> last (fst (eigh la (free_gram la G phi))))"
proof -
  let ?Q = "qr_reduced la G"
  let ?M = "free_gram la G phi"
  have q: "wf ?Q" "nrows ?Q = nrows G" "ncols ?Q = 3"
    using assms(1,2) by (simp_all add: qr_contract_def)
  have pos: "0 < nrows ?M" using q by (simp add: free_gram_def)
  have sub: "compute_subcorr la G phi
      = (np_sqrt (Fin (last (fst (eigh la ?M)))), last_col (snd (eigh la ?M)))"
    using assms(1) by (simp add: compute_subcorr_free)
  have "last (fst (eigh la ?M))
      = nrm2 (dot (dot (tr phi) ?Q) (col_mat (last_col (snd (eigh la ?M)))))"
    using q assms(3,4,5) by (intro free_gram_top) simp_all
  then have "0 \<le> last (fst (eigh la ?M))"
    by (simp add: nrm2_nonneg col_mat_def)
  then have "fst (compute_subcorr la G phi) = Fin (sqrt (last (fst (eigh la ?M))))"
    by (simp add: sub)
  then show ?thesis
    using top_eigenpair[OF assms(5) pos] by (simp add: sub free_gram_def)
qed

text \<open>
  Over the reals: let the signal basis \<open>\<Phi>\<close> have orthonormal columns and let the
  working basis be \<open>P \<Phi>\<close> for a symmetric idempotent \<open>P\<close> (the identity in the first
  round, the projector of the rounds before afterwards). Then the correlation of a
  single-orientation candidate, deflated or not, lies in \<open>[0, 1]\<close> provided its
  topography has a nonzero norm, and so does the correlation of a wider block, the QR factor
  and the eigendecomposition being what their contracts say.
\<close>

lemma correlation_in_unit_interval:
  assumes Phi: "wf Phi" "dot (tr Phi) Phi = identity (ncols Phi)"
    and P: "wf P" "nrows P = nrows Phi" "ncols P = nrows Phi" "tr P = P" "dot P P = P"
    and G: "wf G" "nrows G = nrows Phi"
    and fixed: "ncols G = 1 \<longrightarrow> nrm2 G \<noteq> 0"
    and free: "ncols G \<noteq> 1 \<longrightarrow> 0 < ncols G \<and> qr_contract G (qr_reduced la G)
        \<and> eigh_contract (free_gram la G (dot P Phi)) (eigh la (free_gram la G (dot P Phi)))"
  shows "\<exists>c. fst (compute_subcorr la G (dot P Phi)) = Fin c \<and> 0 \<le> c \<and> c \<le> 1"
proof (cases "ncols G = 1")
  case True
  let ?phi = "dot P Phi"
  have num: "ent (dot (dot (tr G) ?phi) (dot (tr ?phi) G)) 0 0 = nrm2 (dot (tr ?phi) G)"
    using G P by (simp add: nrm2_tr_dot tr_tr)
  have le: "nrm2 (dot (tr ?phi) G) \<le> nrm2 G"
    using Phi P G True by (intro contraction) simp_all
  have ge: "0 \<le> nrm2 (dot (tr ?phi) G)"
    using True by (simp add: nrm2_nonneg)
  have den: "0 < nrm2 G"
    using fixed True nrm2_nonneg[of G] by simp
  have sub: "fst (compute_subcorr la G ?phi)
      = np_sqrt (np_div (nrm2 (dot (tr ?phi) G)) (nrm2 G))"
    using True num by (simp add: compute_subcorr_eq) (simp add: nrm2_def)
  let ?q = "nrm2 (dot (tr ?phi) G) / nrm2 G"
  have q: "0 \<le> ?q" "?q \<le> 1" using le ge den by simp_all
  then have "fst (compute_subcorr la G ?phi) = Fin (sqrt ?q)"
    using den by (simp add: sub np_div_def)
  moreover have "0 \<le> sqrt ?q" "sqrt ?q \<le> 1" using q by simp_all
  ultimately show ?thesis by blast
next
  case False
  let ?phi = "dot P Phi"
  let ?Q = "qr_reduced la G"
  let ?M = "free_gram la G ?phi"
  let ?v = "col_mat (last_col (snd (eigh la ?M)))"
  let ?l = "last (fst (eigh la ?M))"
  have pos: "0 < ncols G" and qc: "qr_contract G ?Q" and ec: "eigh_contract ?M (eigh la ?M)"
    using free False by simp_all
  have q: "wf ?Q" "nrows ?Q = nrows G" "ncols ?Q = ncols G"
    "dot (tr ?Q) ?Q = identity (ncols ?Q)"
    using qc by (simp_all add: qr_contract_def)
  have shape: "nrows ?M = ncols ?Q" by (simp add: free_gram_def)
  have l: "?l = nrm2 (dot (dot (tr ?phi) ?Q) ?v)"
    using q pos P G by (intro free_gram_top[OF _ _ _ _ ec]) simp_all
  have ev: "eigenvector ?M ?l ?v" and unit: "nrm2 ?v = 1"
    using top_eigenpair(1,2)[OF ec] q pos shape by simp_all
  have v: "wf ?v" "nrows ?v = ncols ?Q" "ncols ?v = 1"
    using ev by (simp_all add: eigenvector_def free_gram_def)
  have "dot (dot (tr ?phi) ?Q) ?v = dot (tr ?phi) (dot ?Q ?v)"
    using P q G by (simp add: dot_assoc)
  then have "?l = nrm2 (dot (tr ?phi) (dot ?Q ?v))" using l by simp
  also have "\<dots> \<le> nrm2 (dot ?Q ?v)"
    using Phi P G q v by (intro contraction) simp_all
  also have "\<dots> = 1"
    using isometry[of ?v ?Q] v q unit by simp
  finally have le: "?l \<le> 1" .
  have ge: "0 \<le> ?l" using l v by (simp add: nrm2_nonneg)
  have "fst (compute_subcorr la G ?phi) = Fin (sqrt ?l)"
    using False ge by (simp add: compute_subcorr_free)
  moreover have "0 \<le> sqrt ?l" "sqrt ?l \<le> 1" using le ge by simp_all
  ultimately show ?thesis by blast
qed

text \<open>
  C8, as the code has it. The value returned is a square root as numpy takes it: it is
  \<^verbatim>\<open>nan\<close>, an infinity or a number that is not negative, whatever the block and the
  basis. For a single-orientation candidate whose topography is zero it is \<^verbatim>\<open>nan\<close>,
  the quotient being \<open>0/0\<close>. That it is at most \<open>1\<close> is a fact of exact arithmetic,
  which is what this theory computes with: for a signal basis with orthonormal columns,
  deflated by a symmetric idempotent projector, and a candidate that is single-orientation
  with a topography of nonzero norm, or wider with the QR factor and the eigendecomposition
  that the contracts of the library describe, the value is a number in \<open>[0, 1]\<close>.
\<close>

theorem subspace_correlation_range:
  "(fst (compute_subcorr la G phi) = NaN \<or> fst (compute_subcorr la G phi) = PInf
      \<or> (\<exists>c. fst (compute_subcorr la G phi) = Fin c \<and> 0 \<le> c))
   \<and> (ncols G = 1 \<and> (\<forall>i<nrows G. ent G i 0 = 0) \<longrightarrow> fst (compute_subcorr la G phi) = NaN)
   \<and> (wf Phi \<and> dot (tr Phi) Phi = identity (ncols Phi)
        \<and> wf P \<and> nrows P = nrows Phi \<and> ncols P = nrows Phi \<and> tr P = P \<and> dot P P = P
        \<and> wf G \<and> nrows G = nrows Phi
        \<and> (ncols G = 1 \<longrightarrow> nrm2 G \<noteq> 0)
        \<and> (ncols G \<noteq> 1 \<longrightarrow> 0 < ncols G \<and> qr_contract G (qr_reduced la G)
              \<and> eigh_contract (free_gram la G (dot P Phi)) (eigh la (free_gram la G (dot P Phi))))
      \<longrightarrow> (\<exists>c. fst (compute_subcorr la G (dot P Phi)) = Fin c \<and> 0 \<le> c \<and> c \<le> 1))"
proof -
  have root: "np_sqrt x = NaN \<or> np_sqrt x = PInf \<or> (\<exists>c. np_sqrt x = Fin c \<and> 0 \<le> c)" for x
    by (cases x) auto
  have a: "fst (compute_subcorr la G phi) = NaN \<or> fst (compute_subcorr la G phi) = PInf
      \<or> (\<exists>c. fst (compute_subcorr la G phi) = Fin c \<and> 0 \<le> c)"
    using root by (simp add: compute_subcorr_eq)
  have b: "fst (compute_subcorr la G phi) = NaN"
    if h: "ncols G = 1 \<and> (\<forall>i<nrows G. ent G i 0 = 0)"
  proof -
    have h1: "ncols G = 1" and h2: "\<forall>i<nrows G. ent G i 0 = 0" using h by simp_all
    show ?thesis
      using h1 zero_column_products(1)[OF h1 h2, of phi] zero_column_products(2)[OF h1 h2]
      by (simp add: compute_subcorr_eq np_div_def)
  qed
  have c: "\<exists>c. fst (compute_subcorr la G (dot P Phi)) = Fin c \<and> 0 \<le> c \<and> c \<le> 1"
    if "wf Phi \<and> dot (tr Phi) Phi = identity (ncols Phi)
        \<and> wf P \<and> nrows P = nrows Phi \<and> ncols P = nrows Phi \<and> tr P = P \<and> dot P P = P
        \<and> wf G \<and> nrows G = nrows Phi
        \<and> (ncols G = 1 \<longrightarrow> nrm2 G \<noteq> 0)
        \<and> (ncols G \<noteq> 1 \<longrightarrow> 0 < ncols G \<and> qr_contract G (qr_reduced la G)
              \<and> eigh_contract (free_gram la G (dot P Phi)) (eigh la (free_gram la G (dot P Phi))))"
    using that by (intro correlation_in_unit_interval) simp_all
  show ?thesis using a b c by blast
qed

section \<open>Evaluation on concrete inputs\<close>

lemma la_ex_simps [simp]:
  "eigh la_ex = eigh_diag" "qr_reduced la_ex = qr_triu" "pinv la_ex = pinv_diag"
  "lstsq la_ex = lstsq_orth"
  by (simp_all add: la_ex_def)

lemma replicate_num: "replicate (numeral k) x = x # replicate (pred_numeral k) x"
  by (simp add: numeral_eq_Suc)

lemma list_update_num: "(x # xs)[numeral k := y] = x # xs[pred_numeral k := y]"
  by (simp add: numeral_eq_Suc)

lemmas mat_eval = replicate_num list_update_num mk_def ent_def dot_def dotv_def tr_def identity_def zeros_def msub_def cols_def
  cols_step_def last_col_def set_col_def upt_conv_Cons eigh_diag_def qr_triu_def pinv_diag_def
  lstsq_orth_def np_div_def

lemmas run_eval = rap_round_eq log_ori_eq search_step_eq ori_fits_def corr_def topo_def block_def
  compute_subcorr_eq compute_proj_eq init_state_def

lemmas finish_eval = finish_def Let_def vertno0_index_def vertno1_index_def take_cols_def
  py_take_def py_index_def

lemma la_ex_oris_fit: "oris_fit la_ex 3 m"
  by (simp add: oris_fit_def compute_subcorr_eq eigh_diag_def qr_triu_def last_col_def)

section \<open>Run A\<close>

lemma exA_phi: "signal_subspace la_ex eye2 2 = eye2"
  by (simp add: signal_subspace_def slice_from_def mat_eval)

lemma exA_round0: "rap_round la_ex (Suc 0) exA_G eye2 0 (init_state exA_G eye2 2) = Inr exA_mid"
  by (simp add: run_eval mat_eval)

lemma exA_round1: "rap_round la_ex (Suc 0) exA_G eye2 (Suc 0) exA_mid = Inr exA_end"
  by (simp add: run_eval mat_eval)

lemma exA_loop: "rap_loop la_ex False exA_G eye2 2 2 = Inr exA_end"
  by (simp add: rap_loop_def Let_def exA_phi exA_round0 exA_round1 upt_conv_Cons)

lemma exA_corr:
  "corr la_ex 1 (init_state exA_G eye2 2) 0 = Fin 1"
  "corr la_ex 1 (init_state exA_G eye2 2) 1 = Fin 1"
  by (simp_all add: run_eval mat_eval)

lemma exA_finish:
  "finish la_ex exA_inp exA_G eye2 exA_end
   = Inr \<lparr>sol = eye2, vertices = ([3, 4], []), explained = Some exA_G\<rparr>"
  by (simp add: finish_eval mat_eval)

lemma exA_apply:
  "apply_rap_music la_ex exA_inp
   = Inr \<lparr>sol = eye2, vertices = ([3, 4], []), explained = Some exA_G\<rparr>"
proof -
  have w: "np_dot eye2 exA_G = Inr exA_G" "np_dot eye2 eye2 = Inr eye2"
    by (simp_all add: np_dot_def mat_eval)
  show ?thesis
    using w exA_loop exA_finish by (simp add: apply_rap_music_def Let_def)
qed

text \<open>
  C1 on run A. The second round selects candidate \<open>1\<close>, whose topography in the original
  leadfield is \<open>(1, 1)\<close>; the column recorded for it is \<open>(0, 1)\<close>, its topography in the
  leadfield deflated by the first round. The amplitudes fitted to the recorded columns are the
  identity, and with them the explained data is the leadfield itself and the residual is not
  zero, although the recording is the original leadfield times the amplitudes
  \<open>[[1, -1], [0, 1]]\<close>: two sources at the two candidates explain it exactly.
\<close>

theorem topography_deflated_on_run_A:
  "rap_rounds la_ex 1 exA_G (signal_subspace la_ex eye2 2) [0..<1]
       (init_state exA_G (signal_subspace la_ex eye2 2) 2) = Inr exA_mid
   \<and> rap_loop la_ex False exA_G eye2 2 2 = Inr exA_end
   \<and> active_set exA_end ! 1 = 1
   \<and> ent (A_topo exA_end) 0 1 = 0
   \<and> dotv (block 1 (G_proj exA_mid) 1)
        (snd (compute_subcorr la_ex (block 1 (G_proj exA_mid) 1) (phi_sig_proj exA_mid))) ! 0 = 0
   \<and> dotv (block 1 exA_G 1)
        (snd (compute_subcorr la_ex (block 1 (G_proj exA_mid) 1) (phi_sig_proj exA_mid))) ! 0 = 1
   \<and> rap_music la_ex (\<lambda>M. M) exA_inp
       = Inr (\<lparr>sol = eye2, vertices = ([3, 4], []), explained = Some exA_G\<rparr>,
              Some (Mat 2 2 [[0, - 1], [0, 0]]))
   \<and> dot exA_G (Mat 2 2 [[1, - 1], [0, 1]]) = data exA_inp"
proof -
  have "rap_rounds la_ex 1 exA_G (signal_subspace la_ex eye2 2) [0..<1]
       (init_state exA_G (signal_subspace la_ex eye2 2) 2) = Inr exA_mid"
    by (simp add: exA_phi exA_round0)
  moreover have "ent (A_topo exA_end) 0 1 = 0"
    by (simp add: mat_eval)
  moreover have "dotv (block 1 (G_proj exA_mid) 1)
        (snd (compute_subcorr la_ex (block 1 (G_proj exA_mid) 1) (phi_sig_proj exA_mid))) ! 0 = 0"
    by (simp add: run_eval mat_eval)
  moreover have "dotv (block 1 exA_G 1)
        (snd (compute_subcorr la_ex (block 1 (G_proj exA_mid) 1) (phi_sig_proj exA_mid))) ! 0 = 1"
    by (simp add: run_eval mat_eval)
  moreover have "msub eye2 exA_G = Mat 2 2 [[0, - 1], [0, 0]]"
    by (simp add: mat_eval)
  then have "rap_music la_ex (\<lambda>M. M) exA_inp
       = Inr (\<lparr>sol = eye2, vertices = ([3, 4], []), explained = Some exA_G\<rparr>,
              Some (Mat 2 2 [[0, - 1], [0, 0]]))"
    using exA_apply by (simp add: rap_music_def)
  moreover have "dot exA_G (Mat 2 2 [[1, - 1], [0, 1]]) = data exA_inp"
    by (simp add: mat_eval)
  ultimately show ?thesis using exA_loop by simp
qed

lemma topography_from_working_leadfield_at_run_A:
  "rap_loop la_ex False exA_G eye2 2 2 = Inr exA_end \<and> (1::nat) < nat 2
   \<and> active_set exA_end ! 1 = int 1
   \<and> (\<exists>stk. rap_rounds la_ex (if False then 3 else 1) exA_G (signal_subspace la_ex eye2 2) [0..<1]
               (init_state exA_G (signal_subspace la_ex eye2 2) (nat 2)) = Inr stk
       \<and> G_proj stk = (if (1::nat) = 0 then exA_G
                        else dot (compute_proj la_ex (cols (A_topo stk) 0 1)) exA_G)
       \<and> (\<forall>row<nrows exA_G. ent (A_topo exA_end) row 1 =
             dotv (block (if False then 3 else 1) (G_proj stk) 1)
               (snd (compute_subcorr la_ex (block (if False then 3 else 1) (G_proj stk) 1)
                      (phi_sig_proj stk))) ! row))"
proof -
  have h1: "rap_loop la_ex False exA_G eye2 2 2 = Inr exA_end" by (rule exA_loop)
  have h2: "(1::nat) < nat 2" by simp
  have h3: "active_set exA_end ! 1 = int 1" by simp
  from topography_from_working_leadfield[OF h1 h2 h3] h1 h2 h3 show ?thesis by blast
qed

theorem search_keeps_first_maximum_witness:
  "subcorr_max (init_state exA_G eye2 2) = Fin (- 1)
   \<and> 0 < length (active_set (init_state exA_G eye2 2))
   \<and> active_set (init_state exA_G eye2 2) ! 0 = - 1
   \<and> corr la_ex 1 (init_state exA_G eye2 2) 0 = Fin 1
   \<and> corr la_ex 1 (init_state exA_G eye2 2) 1 = Fin 1
   \<and> (\<exists>st1. search_loop la_ex 1 0 [0..<2] (init_state exA_G eye2 2) = Inr st1
           \<and> active_set st1 ! 0 = int 0)"
proof -
  let ?st = "init_state exA_G eye2 2"
  have h1: "subcorr_max ?st = Fin (- 1)" by simp
  have h2: "0 < length (active_set ?st)" by simp
  have h3: "active_set ?st ! 0 = - 1" by simp
  have best: "np_gt (corr la_ex 1 ?st 0) (Fin (- 1))
     \<and> (\<forall>j<0. corr la_ex 1 ?st j = NaN \<or> np_gt (corr la_ex 1 ?st 0) (corr la_ex 1 ?st j))
     \<and> (\<forall>j<2. 0 < j \<longrightarrow> \<not> np_gt (corr la_ex 1 ?st j) (corr la_ex 1 ?st 0))"
  proof (intro conjI allI impI)
    show "np_gt (corr la_ex 1 ?st 0) (Fin (- 1))" using exA_corr by simp
  next
    fix j :: nat assume "j < 0"
    then show "corr la_ex 1 ?st j = NaN \<or> np_gt (corr la_ex 1 ?st 0) (corr la_ex 1 ?st j)"
      by simp
  next
    fix j :: nat assume "j < 2" "0 < j"
    then have "j = 1" by simp
    then show "\<not> np_gt (corr la_ex 1 ?st j) (corr la_ex 1 ?st 0)" using exA_corr by simp
  qed
  note scan = search_keeps_first_maximum[OF h1 h2 h3, of la_ex 1 2]
  have "(1::nat) = 1 \<and> 2 \<le> ncols (G_proj ?st)" by simp
  then obtain st1 where st1: "search_loop la_ex 1 0 [0..<2] ?st = Inr st1"
    using scan by blast
  have z: "(0::nat) < 2" by simp
  have "active_set st1 ! 0 = int 0"
    using scan st1 best z by blast
  then show ?thesis using h1 h2 h3 exA_corr st1 by blast
qed

theorem zero_norm_pseudoinverse_counterexample:
  "fst (compute_subcorr la_ex (Mat 2 1 [[0], [0]]) eye2) = NaN
   \<and> fst (compute_subcorr_pinv la_ex (Mat 2 1 [[0], [0]]) eye2) = Fin 0"
  by (simp add: compute_subcorr_eq compute_subcorr_pinv_def mat_eval)

theorem zero_norm_candidate_is_nan_witness:
  "ncols (Mat 2 1 [[0], [0]]) = 1
   \<and> ent (Mat 2 1 [[0], [0]]) 0 0 = 0 \<and> ent (Mat 2 1 [[0], [0]]) 1 0 = 0
   \<and> compute_subcorr la_ex (Mat 2 1 [[0], [0]]) eye2 = (NaN, [1])
   \<and> block 1 (G_proj exA_mid) 0 = Mat 2 1 [[0], [0]]
   \<and> search_step la_ex 1 1 exA_mid 0 = Inr exA_mid
   \<and> ncols (G_proj exA_mid) = ncols exA_G
   \<and> (\<exists>st'. rap_round la_ex 1 exA_G eye2 1 exA_mid = Inr st')
   \<and> (\<exists>st'. rap_loop la_ex False exA_G eye2 2 2 = Inr st')"
proof -
  have h1: "ncols (Mat 2 1 [[0], [0]]) = 1" by simp
  have e: "ent (Mat 2 1 [[0], [0]]) 0 0 = 0" "ent (Mat 2 1 [[0], [0]]) 1 0 = 0"
    by (simp_all add: ent_def)
  have h2: "\<forall>i<nrows (Mat 2 1 [[0], [0]]). ent (Mat 2 1 [[0], [0]]) i 0 = 0"
    using e by (simp add: less_Suc_eq numeral_2_eq_2)
  have b: "block 1 (G_proj exA_mid) 0 = Mat 2 1 [[0], [0]]"
    by (simp add: block_def mat_eval)
  have p: "phi_sig_proj exA_mid = Mat 2 2 [[0, 0], [0, 1]]" by simp
  have w: "ncols (G_proj exA_mid) = ncols exA_G" by simp
  have n: "(0::int) \<le> 2" by simp
  from zero_norm_candidate_is_nan[OF h1 h2, where la = la_ex and phi = "Mat 2 2 [[0, 0], [0, 1]]"
      and n_orient = 1 and st = exA_mid and i = 0 and k = 1 and ?G0.0 = exA_G and ?phi0.0 = eye2
      and n = 2 and dat = eye2 and rk = 2]
    zero_norm_candidate_is_nan[OF h1 h2, where la = la_ex and phi = eye2]
  show ?thesis using h1 e b p w n by blast
qed

theorem subspace_correlation_nan_counterexample:
  "rap_round la_ex 1 exA_G eye2 0 (init_state exA_G eye2 2) = Inr exA_mid
   \<and> block 1 (G_proj exA_mid) 0 = Mat 2 1 [[0], [0]]
   \<and> fst (compute_subcorr la_ex (block 1 (G_proj exA_mid) 0) (phi_sig_proj exA_mid)) = NaN"
  using exA_round0 by (simp add: block_def compute_subcorr_eq mat_eval)

theorem projector_symmetric_idempotent_annihilating_witness:
  "wf (Mat 2 2 [[1, 0], [0, 0]])
   \<and> dot (tr (Mat 2 2 [[1, 0], [0, 0]])) (Mat 2 2 [[1, 0], [0, 0]]) = Mat 2 2 [[1, 0], [0, 0]]
   \<and> moore_penrose (Mat 2 2 [[1, 0], [0, 0]]) (pinv la_ex (Mat 2 2 [[1, 0], [0, 0]]))
   \<and> compute_proj la_ex (Mat 2 2 [[1, 0], [0, 0]]) = Mat 2 2 [[0, 0], [0, 1]]
   \<and> tr (compute_proj la_ex (Mat 2 2 [[1, 0], [0, 0]])) = compute_proj la_ex (Mat 2 2 [[1, 0], [0, 0]])
   \<and> dot (compute_proj la_ex (Mat 2 2 [[1, 0], [0, 0]])) (compute_proj la_ex (Mat 2 2 [[1, 0], [0, 0]]))
       = compute_proj la_ex (Mat 2 2 [[1, 0], [0, 0]])
   \<and> dot (compute_proj la_ex (Mat 2 2 [[1, 0], [0, 0]])) (Mat 2 2 [[1, 0], [0, 0]])
       = zeros (nrows (Mat 2 2 [[1, 0], [0, 0]])) (ncols (Mat 2 2 [[1, 0], [0, 0]]))"
proof -
  let ?A = "Mat 2 2 [[1, 0], [0, 0]]"
  have h1: "wf ?A" by (simp add: wf_def)
  have g: "dot (tr ?A) ?A = ?A" by (simp add: mat_eval)
  have mp: "moore_penrose ?A (pinv la_ex ?A)"
    by (simp add: moore_penrose_def wf_def mat_eval)
  have h2: "moore_penrose (dot (tr ?A) ?A) (pinv la_ex (dot (tr ?A) ?A))"
    using mp g by simp
  have v: "compute_proj la_ex ?A = Mat 2 2 [[0, 0], [0, 1]]"
    by (simp add: compute_proj_eq mat_eval)
  from projector_symmetric_idempotent_annihilating[OF h1 h2] h1 g mp v
  show ?thesis by blast
qed

theorem hemisphere_split_off_by_one_witness:
  "(2::int) = int (length (fst (vertno exH_inp)))
   \<and> (2::int) = int (length (snd (vertno exH_inp)))
   \<and> 2 \<in> set (active_set exH_at_L)
   \<and> finish la_ex exH_inp eye2 eye2 exH_at_L = Inl IndexError
   \<and> sort (active_set exH_found) = [0, 3]
   \<and> (\<exists>out. finish la_ex exH_inp eye2 eye2 exH_found = Inr out \<and> vertices out = ([10], [40]))"
proof -
  have h1: "(2::int) = int (length (fst (vertno exH_inp)))" by simp
  have h2: "(2::int) = int (length (snd (vertno exH_inp)))" by simp
  have at_L: "(2::int) \<in> set (active_set exH_at_L)" by simp
  have bad: "finish la_ex exH_inp eye2 eye2 exH_at_L = Inl IndexError"
    using hemisphere_split_off_by_one[OF h1 h2, of exH_at_L la_ex eye2 eye2] at_L by blast
  note split = hemisphere_split_off_by_one[OF h1 h2, of exH_found la_ex eye2 eye2]
  have ok: "(return_residual exH_inp \<longrightarrow> (\<forall>i \<in> set (active_set exH_found). in_range (ncols eye2) i))
      \<and> (\<forall>i \<in> set (active_set exH_found). (- 2 \<le> i \<and> i < 2) \<or> (2 < i \<and> i < 2 + 2))"
    by simp
  then obtain out where out: "finish la_ex exH_inp eye2 eye2 exH_found = Inr out"
    using split by blast
  have s: "sort (active_set exH_found) = [0, 3]" by simp
  have "vertices out =
      (map (py_get (fst (vertno exH_inp))) (filter (\<lambda>i. i \<le> 2) (sort (active_set exH_found))),
       map (\<lambda>i. snd (vertno exH_inp) ! nat (i - 2)) (filter (\<lambda>i. 2 < i) (sort (active_set exH_found))))"
    using split out by blast
  then have "vertices out = ([10], [40])"
    unfolding s by (simp add: py_get_def)
  then show ?thesis using h1 h2 at_L bad s out by blast
qed

section \<open>Run B\<close>

lemma exB_phi: "signal_subspace la_ex eye3 3 = eye3"
  by (simp add: signal_subspace_def slice_from_def mat_eval)

lemma exB_round0: "rap_round la_ex (Suc 0) exB_G eye3 0 (init_state exB_G eye3 3) = Inr exB_mid"
  by (simp add: run_eval mat_eval)

lemma exB_round1: "rap_round la_ex (Suc 0) exB_G eye3 (Suc 0) exB_mid = Inr exB_end"
  by (simp add: run_eval mat_eval)

lemma exB_round2: "rap_round la_ex (Suc 0) exB_G eye3 (Suc (Suc 0)) exB_end = Inr exB_end"
  by (simp add: run_eval mat_eval)

lemma exB_loop: "rap_loop la_ex False exB_G eye3 3 3 = Inr exB_end"
  by (simp add: rap_loop_def Let_def exB_phi exB_round0 exB_round1 exB_round2 upt_conv_Cons)

lemma exB_finish:
  "finish la_ex exB_inp exB_G eye3 exB_end
   = Inr \<lparr>sol = Mat 3 3 [[1, 0, 0], [0, 0, 0], [0, 0, 0]], vertices = ([13, 13, 11], []),
           explained = Some (Mat 3 3 [[3, 0, 0], [0, 0, 0], [0, 0, 0]])\<rparr>"
  by (simp add: finish_eval mat_eval)

lemma exB_apply:
  "apply_rap_music la_ex exB_inp
   = Inr \<lparr>sol = Mat 3 3 [[1, 0, 0], [0, 0, 0], [0, 0, 0]], vertices = ([13, 13, 11], []),
           explained = Some (Mat 3 3 [[3, 0, 0], [0, 0, 0], [0, 0, 0]])\<rparr>"
proof -
  have w: "np_dot eye3 exB_G = Inr exB_G" "np_dot eye3 eye3 = Inr eye3"
    by (simp_all add: np_dot_def mat_eval)
  show ?thesis
    using w exB_loop exB_finish by (simp add: apply_rap_music_def Let_def)
qed

lemma exB_corr:
  "corr la_ex 1 (init_state exB_G eye3 3) 0 = Fin 1"
  "corr la_ex 1 (init_state exB_G eye3 3) 1 = Fin 1"
  "corr la_ex 1 (init_state exB_G eye3 3) 2 = Fin 1"
  "corr la_ex 1 exB_mid 0 = NaN"
  "corr la_ex 1 exB_mid 1 = NaN"
  "corr la_ex 1 exB_mid 2 = NaN"
  by (simp_all add: run_eval mat_eval)

theorem active_set_distinct_valid_counterexample:
  "rap_loop la_ex False exB_G eye3 3 3 = Inr exB_end
   \<and> active_set exB_end = [0, - 1, - 1]
   \<and> \<not> distinct (active_set exB_end)
   \<and> \<not> 0 \<le> active_set exB_end ! 1
   \<and> sort (active_set exB_end) = [- 1, - 1, 0]
   \<and> apply_rap_music la_ex exB_inp
       = Inr \<lparr>sol = Mat 3 3 [[1, 0, 0], [0, 0, 0], [0, 0, 0]], vertices = ([13, 13, 11], []),
               explained = Some (Mat 3 3 [[3, 0, 0], [0, 0, 0], [0, 0, 0]])\<rparr>
   \<and> \<not> sorted [13, 13, 11 :: int]"
  using exB_loop exB_apply by simp

theorem active_set_after_loop_witness:
  "rap_loop la_ex False exB_G eye3 3 3 = Inr exB_end
   \<and> length (active_set exB_end) = nat 3
   \<and> first_max la_ex 1 (init_state exB_G eye3 3) 3 0
   \<and> active_set exB_end ! 0 = int 0
   \<and> (\<exists>stk. rap_rounds la_ex 1 exB_G (signal_subspace la_ex eye3 3) [0..<1]
                 (init_state exB_G (signal_subspace la_ex eye3 3) (nat 3)) = Inr stk
           \<and> list_all (\<lambda>i. \<not> np_gt (corr la_ex 1 stk i) (Fin (- 1))) [0..<3])
   \<and> active_set exB_end ! 1 = - 1
   \<and> list_all (\<lambda>e. e = - 1 \<or> (0 \<le> e \<and> e < int (ncols exB_G div 1))) (active_set exB_end)
   \<and> vertices \<lparr>sol = Mat 3 3 [[1, 0, 0], [0, 0, 0], [0, 0, 0]], vertices = ([13, 13, 11], []),
                  explained = Some (Mat 3 3 [[3, 0, 0], [0, 0, 0], [0, 0, 0]])\<rparr>
       = (map (py_get [11, 12, 13]) (vertno0_index 3 (sort (active_set exB_end))),
          map (py_get []) (vertno1_index 3 (sort (active_set exB_end))))
   \<and> sorted (vertno0_index 3 (sort (active_set exB_end)))
   \<and> rap_loop la_ex False exA_G eye2 2 2 = Inr exA_end
   \<and> list_all (\<lambda>e. 0 \<le> e) (active_set exA_end)
   \<and> sorted (fst (vertno exA_inp)) \<and> sorted (snd (vertno exA_inp))
   \<and> sorted (fst (vertices \<lparr>sol = eye2, vertices = ([3, 4], []), explained = Some exA_G\<rparr>))"
proof -
  note B = active_set_after_loop[OF exB_loop]
  note A = active_set_after_loop[OF exA_loop]
  have len: "length (active_set exB_end) = nat 3" using B by blast
  have e0: "active_set exB_end ! 0 = int 0" and e1: "active_set exB_end ! 1 = - 1" by simp_all
  have k0: "(0::nat) < nat 3" and k1: "(1::nat) < nat 3" and c0: "(0::nat) < ncols exB_G div 1"
    by simp_all
  have r0: "rap_rounds la_ex 1 exB_G (signal_subspace la_ex eye3 3) [0..<0]
      (init_state exB_G (signal_subspace la_ex eye3 3) (nat 3)) = Inr (init_state exB_G eye3 3)"
    by (simp add: exB_phi)
  from B k0 obtain stk0 where
    s0: "rap_rounds la_ex (if False then 3 else 1) exB_G (signal_subspace la_ex eye3 3) [0..<0]
            (init_state exB_G (signal_subspace la_ex eye3 3) (nat 3)) = Inr stk0"
    and f0: "\<forall>i<ncols exB_G div (if False then 3 else 1).
               active_set exB_end ! 0 = int i
                 \<longleftrightarrow> first_max la_ex (if False then 3 else 1) stk0
                       (ncols exB_G div (if False then 3 else 1)) i"
    by blast
  have "stk0 = init_state exB_G eye3 3" using s0 r0 by simp
  then have first: "first_max la_ex 1 (init_state exB_G eye3 3) 3 0"
    using f0[rule_format, of 0] e0 by simp
  from B k1 obtain stk1 where
    s1: "rap_rounds la_ex (if False then 3 else 1) exB_G (signal_subspace la_ex eye3 3) [0..<1]
            (init_state exB_G (signal_subspace la_ex eye3 3) (nat 3)) = Inr stk1"
    and f1: "active_set exB_end ! 1 = - 1
               \<longleftrightarrow> (\<forall>i<ncols exB_G div (if False then 3 else 1).
                      \<not> np_gt (corr la_ex (if False then 3 else 1) stk1 i) (Fin (- 1)))"
    by blast
  have none: "list_all (\<lambda>i. \<not> np_gt (corr la_ex 1 stk1 i) (Fin (- 1))) [0..<3]"
    using f1 e1 by (simp add: list_all_iff)
  have round1: "\<exists>stk. rap_rounds la_ex 1 exB_G (signal_subspace la_ex eye3 3) [0..<1]
                 (init_state exB_G (signal_subspace la_ex eye3 3) (nat 3)) = Inr stk
           \<and> list_all (\<lambda>i. \<not> np_gt (corr la_ex 1 stk i) (Fin (- 1))) [0..<3]"
    using s1 none by auto
  have valid: "list_all (\<lambda>e. e = - 1 \<or> (0 \<le> e \<and> e < int (ncols exB_G div 1))) (active_set exB_end)"
    using B unfolding list_all_iff by simp
  have rep: "vertices \<lparr>sol = Mat 3 3 [[1, 0, 0], [0, 0, 0], [0, 0, 0]], vertices = ([13, 13, 11], []),
                  explained = Some (Mat 3 3 [[3, 0, 0], [0, 0, 0], [0, 0, 0]])\<rparr>
       = (map (py_get [11, 12, 13]) (vertno0_index 3 (sort (active_set exB_end))),
          map (py_get []) (vertno1_index 3 (sort (active_set exB_end))))"
    and asc: "sorted (vertno0_index 3 (sort (active_set exB_end)))"
    using B[THEN conjunct2, THEN conjunct2, THEN conjunct2, rule_format, OF exB_finish]
    by simp_all
  have nn: "list_all (\<lambda>e. 0 \<le> e) (active_set exA_end)" by simp
  have sv: "sorted (fst (vertno exA_inp))" "sorted (snd (vertno exA_inp))" by simp_all
  have "sorted (fst (vertices \<lparr>sol = eye2, vertices = ([3, 4], []), explained = Some exA_G\<rparr>))"
    using A[THEN conjunct2, THEN conjunct2, THEN conjunct2, rule_format, OF exA_finish]
    by simp
  then show ?thesis
    using exB_loop len first e0 round1 e1 valid rep asc exA_loop nn sv by blast
qed

section \<open>Run C\<close>

lemma exC_round0:
  "rap_round la_ex 1 (Mat 2 1 [[1], [0]]) eye2 0 (init_state (Mat 2 1 [[1], [0]]) eye2 2)
   = Inr \<lparr>subcorr_max = Fin 1, active_set = [0, - 1], A_topo = Mat 2 2 [[1, 0], [0, 0]],
           G_proj = Mat 2 1 [[0], [0]], phi_sig_proj = Mat 2 2 [[0, 0], [0, 1]]\<rparr>"
  by (simp add: run_eval mat_eval)

lemma exC_round1:
  "rap_round la_ex 1 (Mat 2 1 [[1], [0]]) eye2 1
     \<lparr>subcorr_max = Fin 1, active_set = [0, - 1], A_topo = Mat 2 2 [[1, 0], [0, 0]],
           G_proj = Mat 2 1 [[0], [0]], phi_sig_proj = Mat 2 2 [[0, 0], [0, 1]]\<rparr>
   = Inr \<lparr>subcorr_max = Fin (- 1), active_set = [0, - 1], A_topo = Mat 2 2 [[1, 0], [0, 0]],
           G_proj = Mat 2 1 [[0], [0]], phi_sig_proj = Mat 2 2 [[0, 0], [0, 1]]\<rparr>"
  by (simp add: run_eval mat_eval)

lemma exC_phi: "signal_subspace la_ex eye2 3 = eye2"
  by (simp add: signal_subspace_def slice_from_def mat_eval)

lemma exC_loop:
  "rap_loop la_ex False (Mat 2 1 [[1], [0]]) eye2 3 2
   = Inr \<lparr>subcorr_max = Fin (- 1), active_set = [0, - 1], A_topo = Mat 2 2 [[1, 0], [0, 0]],
           G_proj = Mat 2 1 [[0], [0]], phi_sig_proj = Mat 2 2 [[0, 0], [0, 1]]\<rparr>"
  using exC_round0 exC_round1
  by (simp add: rap_loop_def Let_def exC_phi upt_conv_Cons)

lemma exC_finish:
  "finish la_ex exC_inp (Mat 2 1 [[1], [0]]) eye2
     \<lparr>subcorr_max = Fin (- 1), active_set = [0, - 1], A_topo = Mat 2 2 [[1, 0], [0, 0]],
           G_proj = Mat 2 1 [[0], [0]], phi_sig_proj = Mat 2 2 [[0, 0], [0, 1]]\<rparr>
   = Inr \<lparr>sol = Mat 2 2 [[1, 0], [0, 0]], vertices = ([7, 7], []),
           explained = Some (Mat 2 2 [[1, 0], [0, 0]])\<rparr>"
  by (simp add: finish_eval mat_eval)

theorem configuration_error_not_fatal_counterexample:
  "int (ncols (G_fwd exC_inp)) < n_sources exC_inp
   \<and> int (nrows (data exC_inp)) < r exC_inp
   \<and> apply_rap_music la_ex exC_inp
       = Inr \<lparr>sol = Mat 2 2 [[1, 0], [0, 0]], vertices = ([7, 7], []),
               explained = Some (Mat 2 2 [[1, 0], [0, 0]])\<rparr>"
proof -
  have w: "np_dot eye2 (Mat 2 1 [[1], [0]]) = Inr (Mat 2 1 [[1], [0]])"
    "np_dot eye2 eye2 = Inr eye2"
    by (simp_all add: np_dot_def mat_eval)
  show ?thesis
    using w exC_loop exC_finish by (simp add: apply_rap_music_def Let_def)
qed

theorem no_configuration_check_witness:
  "wf (snd (eigh la_ex (dot eye2 (tr eye2))))
   \<and> int (ncols (snd (eigh la_ex (dot eye2 (tr eye2))))) \<le> 3
   \<and> signal_subspace la_ex eye2 3 = snd (eigh la_ex (dot eye2 (tr eye2)))
   \<and> rap_loop la_ex False (Mat 2 1 [[1], [0]]) eye2 3 2
       = rap_loop la_ex False (Mat 2 1 [[1], [0]]) eye2
           (int (ncols (snd (eigh la_ex (dot eye2 (tr eye2)))))) 2
   \<and> int (ncols (Mat 2 1 [[1], [0]])) < 2
   \<and> (\<exists>st. rap_loop la_ex False (Mat 2 1 [[1], [0]]) eye2 3 2 = Inr st
          \<and> length (active_set st) = nat 2)
   \<and> 0 < ncols eye3 div 3 \<and> oris_fit la_ex 3 (nrows eye3)
   \<and> int (ncols eye3 div 3) < 2
   \<and> (\<exists>st. rap_loop la_ex True eye3 exD_phi_sig 1 2 = Inr st \<and> length (active_set st) = nat 2)
   \<and> rap_loop la_ex False (Mat 2 1 [[1], [0]]) eye2 3 (- 1) = Inl ValueError
   \<and> ncols eye2 div 3 = 0
   \<and> rap_loop la_ex True eye2 eye2 2 1 = Inl NameError"
proof -
  have h: "wf (snd (eigh la_ex (dot eye2 (tr eye2))))
     \<and> int (ncols (snd (eigh la_ex (dot eye2 (tr eye2))))) \<le> 3"
    by (simp add: mat_eval wf_def)
  have c: "int (ncols (Mat 2 1 [[1], [0]])) < 2" "0 < ncols eye3 div 3"
    "int (ncols eye3 div 3) < 2" "ncols eye2 div 3 = 0"
    by simp_all
  have fixed: "(0::int) \<le> 2 \<and> (False \<longrightarrow> 0 < ncols (Mat 2 1 [[1], [0]]) div 3
      \<and> oris_fit la_ex 3 (nrows (Mat 2 1 [[1], [0]])))"
    by simp
  have free: "(0::int) \<le> 2 \<and> (True \<longrightarrow> 0 < ncols eye3 div 3 \<and> oris_fit la_ex 3 (nrows eye3))"
    using la_ex_oris_fit by simp
  have neg: "(- 1::int) < 0" by simp
  have unbound: "(0::int) < 1 \<and> True \<and> ncols eye2 div 3 = 0" by simp
  note run_C = no_configuration_check[of la_ex eye2 3 False "Mat 2 1 [[1], [0]]" 2]
  have clip: "signal_subspace la_ex eye2 3 = snd (eigh la_ex (dot eye2 (tr eye2)))
       \<and> rap_loop la_ex False (Mat 2 1 [[1], [0]]) eye2 3 2
         = rap_loop la_ex False (Mat 2 1 [[1], [0]]) eye2
             (int (ncols (snd (eigh la_ex (dot eye2 (tr eye2)))))) 2"
    using run_C h by blast
  have more: "\<exists>st. rap_loop la_ex False (Mat 2 1 [[1], [0]]) eye2 3 2 = Inr st
          \<and> length (active_set st) = nat 2"
    using run_C fixed by blast
  have more_free: "\<exists>st. rap_loop la_ex True eye3 exD_phi_sig 1 2 = Inr st
          \<and> length (active_set st) = nat 2"
    using no_configuration_check[of la_ex exD_phi_sig 1 True eye3 2] free by blast
  have negative: "rap_loop la_ex False (Mat 2 1 [[1], [0]]) eye2 3 (- 1) = Inl ValueError"
    using no_configuration_check[of la_ex eye2 3 False "Mat 2 1 [[1], [0]]" "- 1"] neg by blast
  have name: "rap_loop la_ex True eye2 eye2 2 1 = Inl NameError"
    using no_configuration_check[of la_ex eye2 2 True eye2 1] unbound by blast
  show ?thesis
    using h c clip more la_ex_oris_fit more_free negative name by simp
qed

section \<open>Run D\<close>

lemma exD_phi: "signal_subspace la_ex (Mat 3 1 [[0], [0], [1]]) 1 = Mat 3 1 [[0], [0], [1]]"
  by (simp add: signal_subspace_def slice_from_def mat_eval)

lemma exD_sub:
  "compute_subcorr la_ex (block 3 eye3 0) (Mat 3 1 [[0], [0], [1]]) = (Fin 1, [0, 0, 1])"
  by (simp add: run_eval mat_eval)

lemma exD_round0:
  "rap_round la_ex 3 eye3 (Mat 3 1 [[0], [0], [1]]) 0
     (init_state eye3 (Mat 3 1 [[0], [0], [1]]) 1) = Inr exD_end"
  by (simp add: run_eval mat_eval)

lemma exD_loop: "rap_loop la_ex True eye3 (Mat 3 1 [[0], [0], [1]]) 1 1 = Inr exD_end"
  using exD_round0 exD_phi by (simp add: rap_loop_def Let_def upt_conv_Cons)

lemma exD_finish:
  "finish la_ex exD_inp eye3 (Mat 3 1 [[0], [0], [1]]) exD_end
   = Inr \<lparr>sol = Mat 1 1 [[1]], vertices = ([5], []),
           explained = Some (Mat 3 1 [[1], [0], [0]])\<rparr>"
  by (simp add: finish_eval mat_eval)

text \<open>
  C5 on run D. The candidate is found with the orientation \<open>(0, 0, 1)\<close> and the amplitude
  \<open>1\<close>: its contribution, the block of the original leadfield times the orientation times
  the amplitude, is the recording itself, \<open>(0, 0, 1)\<close>. The code indexes the columns of the
  original leadfield by the candidate index and returns \<open>D = (1, 0, 0)\<close>, the first
  column of the block, so that the residual is \<open>(-1, 0, 1)\<close> and not zero.
\<close>

theorem explained_data_free_orientation:
  "rap_music la_ex (\<lambda>M. M) exD_inp
     = Inr (\<lparr>sol = Mat 1 1 [[1]], vertices = ([5], []),
              explained = Some (Mat 3 1 [[1], [0], [0]])\<rparr>,
            Some (Mat 3 1 [[- 1], [0], [1]]))
   \<and> snd (compute_subcorr la_ex (block 3 eye3 0) (Mat 3 1 [[0], [0], [1]])) = [0, 0, 1]
   \<and> dot (Mat 3 1 (map (\<lambda>x. [x]) (dotv (block 3 (G_fwd exD_inp) 0) [0, 0, 1]))) (Mat 1 1 [[1]])
       = Mat 3 1 [[0], [0], [1]]"
proof -
  have w: "np_dot eye3 eye3 = Inr eye3"
    "np_dot eye3 (Mat 3 1 [[0], [0], [1]]) = Inr (Mat 3 1 [[0], [0], [1]])"
    by (simp_all add: np_dot_def mat_eval)
  have a: "apply_rap_music la_ex exD_inp
     = Inr \<lparr>sol = Mat 1 1 [[1]], vertices = ([5], []),
             explained = Some (Mat 3 1 [[1], [0], [0]])\<rparr>"
    using w exD_loop exD_finish by (simp add: apply_rap_music_def Let_def)
  have r: "msub (Mat 3 1 [[0], [0], [1]]) (Mat 3 1 [[1], [0], [0]]) = Mat 3 1 [[- 1], [0], [1]]"
    by (simp add: mat_eval)
  have m: "rap_music la_ex (\<lambda>M. M) exD_inp
     = Inr (\<lparr>sol = Mat 1 1 [[1]], vertices = ([5], []),
              explained = Some (Mat 3 1 [[1], [0], [0]])\<rparr>,
            Some (Mat 3 1 [[- 1], [0], [1]]))"
    using a r by (simp add: rap_music_def)
  have d: "dot (Mat 3 1 (map (\<lambda>x. [x]) (dotv (block 3 (G_fwd exD_inp) 0) [0, 0, 1]))) (Mat 1 1 [[1]])
       = Mat 3 1 [[0], [0], [1]]"
    by (simp add: block_def mat_eval)
  show ?thesis using m d exD_sub by simp
qed

lemma exD_gram: "free_gram la_ex eye3 exD_phi_sig = exD_M"
  by (simp add: free_gram_def mat_eval)

lemma exD_qr: "qr_contract eye3 (qr_reduced la_ex eye3)"
  by (simp add: qr_contract_def upper_triangular_def wf_def mat_eval)

lemma exD_spectrum:
  assumes "eigenvector exD_M \<mu> x"
  shows "\<mu> = 0 \<or> \<mu> = 1"
proof -
  have x: "nrows x = 3" "ncols x = 1" "nrm2 x \<noteq> 0" "dot exD_M x = smult \<mu> x"
    using assms by (simp_all add: eigenvector_def)
  have e: "ent (dot exD_M x) i 0 = \<mu> * ent x i 0" if "i < 3" for i
    using that x by simp
  have "ent (dot exD_M x) 0 0 = 0" "ent (dot exD_M x) 1 0 = 0"
    "ent (dot exD_M x) 2 0 = ent x 2 0"
    using x(1,2) by (simp_all add: ent_dot numeral_3_eq_3) (simp_all add: ent_def numeral_2_eq_2)
  then have eqs: "\<mu> * ent x 0 0 = 0" "\<mu> * ent x 1 0 = 0" "\<mu> * ent x 2 0 = ent x 2 0"
    using e[of 0] e[of 1] e[of 2] by simp_all
  have "nrm2 x = (ent x 0 0)\<^sup>2 + (ent x 1 0)\<^sup>2 + (ent x 2 0)\<^sup>2"
    using x(1,2) by (simp add: nrm2_sum numeral_3_eq_3) (simp add: numeral_2_eq_2)
  then have nz: "ent x 0 0 \<noteq> 0 \<or> ent x 1 0 \<noteq> 0 \<or> ent x 2 0 \<noteq> 0"
    using x(3) by auto
  show ?thesis
  proof (cases "\<mu> = 0")
    case True
    then show ?thesis by simp
  next
    case False
    then have "ent x 0 0 = 0" "ent x 1 0 = 0" using eqs by simp_all
    then have "ent x 2 0 \<noteq> 0" using nz by simp
    then show ?thesis using eqs(3) by simp
  qed
qed

lemma exD_eigh: "eigh_contract exD_M (eigh la_ex exD_M)"
proof -
  have shape: "length (fst (eigh la_ex exD_M)) = nrows exD_M" "wf (snd (eigh la_ex exD_M))"
    "nrows (snd (eigh la_ex exD_M)) = nrows exD_M" "ncols (snd (eigh la_ex exD_M)) = nrows exD_M"
    "sorted (fst (eigh la_ex exD_M))"
    by (simp_all add: mat_eval wf_def)
  have vals: "fst (eigh la_ex exD_M) = [0, 0, 1]"
    by (simp add: mat_eval)
  have p: "eigenvector exD_M (fst (eigh la_ex exD_M) ! j) (cols (snd (eigh la_ex exD_M)) j (j + 1))
      \<and> nrm2 (cols (snd (eigh la_ex exD_M)) j (j + 1)) = 1" if "j < nrows exD_M" for j
  proof -
    from that consider "j = 0" | "j = 1" | "j = 2" by fastforce
    then show ?thesis
    proof cases
      case 1
      then show ?thesis by (simp add: eigenvector_def nrm2_def smult_def wf_def mat_eval)
    next
      case 2
      then show ?thesis by (simp add: eigenvector_def nrm2_def smult_def wf_def mat_eval)
    next
      case 3
      then show ?thesis by (simp add: eigenvector_def nrm2_def smult_def wf_def mat_eval)
    qed
  qed
  have all: "\<forall>\<mu> x. eigenvector exD_M \<mu> x \<longrightarrow> \<mu> \<in> set (fst (eigh la_ex exD_M))"
    unfolding vals using exD_spectrum by auto
  show ?thesis
    unfolding eigh_contract_def using shape p all by blast
qed

theorem free_orientation_top_eigenpair_witness:
  "ncols eye3 = 3 \<and> qr_contract eye3 (qr_reduced la_ex eye3)
   \<and> wf exD_phi_sig \<and> nrows exD_phi_sig = nrows eye3
   \<and> free_gram la_ex eye3 exD_phi_sig = exD_M
   \<and> eigh_contract (free_gram la_ex eye3 exD_phi_sig) (eigh la_ex (free_gram la_ex eye3 exD_phi_sig))
   \<and> fst (compute_subcorr la_ex eye3 exD_phi_sig)
       = Fin (sqrt (last (fst (eigh la_ex (free_gram la_ex eye3 exD_phi_sig)))))
   \<and> last (fst (eigh la_ex (free_gram la_ex eye3 exD_phi_sig))) = 1
   \<and> snd (compute_subcorr la_ex eye3 exD_phi_sig) = [0, 0, 1]
   \<and> eigenvector (free_gram la_ex eye3 exD_phi_sig) 1
        (col_mat (snd (compute_subcorr la_ex eye3 exD_phi_sig)))
   \<and> nrm2 (col_mat (snd (compute_subcorr la_ex eye3 exD_phi_sig))) = 1"
proof -
  have h1: "ncols eye3 = 3" by simp
  have h3: "wf exD_phi_sig" by (simp add: wf_def)
  have h4: "nrows exD_phi_sig = nrows eye3" by simp
  have h5: "eigh_contract (free_gram la_ex eye3 exD_phi_sig)
      (eigh la_ex (free_gram la_ex eye3 exD_phi_sig))"
    unfolding exD_gram by (rule exD_eigh)
  have l: "last (fst (eigh la_ex (free_gram la_ex eye3 exD_phi_sig))) = 1"
    unfolding exD_gram by (simp add: mat_eval)
  have o: "snd (compute_subcorr la_ex eye3 exD_phi_sig) = [0, 0, 1]"
    by (simp add: compute_subcorr_eq mat_eval)
  note top = free_orientation_top_eigenpair[OF h1 exD_qr h3 h4 h5]
  have a: "fst (compute_subcorr la_ex eye3 exD_phi_sig)
       = Fin (sqrt (last (fst (eigh la_ex (free_gram la_ex eye3 exD_phi_sig)))))"
    using top by blast
  have "eigenvector (free_gram la_ex eye3 exD_phi_sig)
        (last (fst (eigh la_ex (free_gram la_ex eye3 exD_phi_sig))))
        (col_mat (snd (compute_subcorr la_ex eye3 exD_phi_sig)))"
    using top by blast
  then have b: "eigenvector (free_gram la_ex eye3 exD_phi_sig) 1
        (col_mat (snd (compute_subcorr la_ex eye3 exD_phi_sig)))"
    by (simp only: l)
  have c: "nrm2 (col_mat (snd (compute_subcorr la_ex eye3 exD_phi_sig))) = 1"
    using top by blast
  show ?thesis using h1 exD_qr h3 h4 h5 l o exD_gram a b c by blast
qed

theorem subspace_correlation_range_witness:
  "dot (tr eye2) eye2 = identity (ncols eye2)
   \<and> tr (Mat 2 2 [[0, 0], [0, 1]]) = Mat 2 2 [[0, 0], [0, 1]]
   \<and> dot (Mat 2 2 [[0, 0], [0, 1]]) (Mat 2 2 [[0, 0], [0, 1]]) = Mat 2 2 [[0, 0], [0, 1]]
   \<and> dot (Mat 2 2 [[0, 0], [0, 1]]) eye2 = phi_sig_proj exA_mid
   \<and> block 1 (G_proj exA_mid) 1 = Mat 2 1 [[0], [1]]
   \<and> nrm2 (Mat 2 1 [[0], [1]]) = 1
   \<and> (\<exists>c. fst (compute_subcorr la_ex (Mat 2 1 [[0], [1]]) (dot (Mat 2 2 [[0, 0], [0, 1]]) eye2)) = Fin c
          \<and> 0 \<le> c \<and> c \<le> 1)
   \<and> block 1 (G_proj exA_mid) 0 = Mat 2 1 [[0], [0]]
   \<and> ent (Mat 2 1 [[0], [0]]) 0 0 = 0 \<and> ent (Mat 2 1 [[0], [0]]) 1 0 = 0
   \<and> fst (compute_subcorr la_ex (Mat 2 1 [[0], [0]]) (phi_sig_proj exA_mid)) = NaN
   \<and> dot (tr exD_phi_sig) exD_phi_sig = identity (ncols exD_phi_sig)
   \<and> qr_contract eye3 (qr_reduced la_ex eye3)
   \<and> eigh_contract (free_gram la_ex eye3 (dot eye3 exD_phi_sig))
        (eigh la_ex (free_gram la_ex eye3 (dot eye3 exD_phi_sig)))
   \<and> (\<exists>c. fst (compute_subcorr la_ex eye3 (dot eye3 exD_phi_sig)) = Fin c \<and> 0 \<le> c \<and> c \<le> 1)"
proof -
  let ?P = "Mat 2 2 [[0, 0], [0, 1]]"
  let ?g = "Mat 2 1 [[0], [1]]"
  let ?z = "Mat 2 1 [[0], [0]]"
  have a1: "wf eye2" "wf ?P" "wf ?g" by (simp_all add: wf_def)
  have a2: "dot (tr eye2) eye2 = identity (ncols eye2)" by (simp add: mat_eval)
  have a3: "nrows ?P = nrows eye2" "ncols ?P = nrows eye2" "nrows ?g = nrows eye2" by simp_all
  have a4: "tr ?P = ?P" "dot ?P ?P = ?P" by (simp_all add: mat_eval)
  have a5: "nrm2 ?g = 1" by (simp add: nrm2_def mat_eval)
  then have a6: "ncols ?g = 1 \<longrightarrow> nrm2 ?g \<noteq> 0" by simp
  have a7: "ncols ?g \<noteq> 1 \<longrightarrow> 0 < ncols ?g \<and> qr_contract ?g (qr_reduced la_ex ?g)
        \<and> eigh_contract (free_gram la_ex ?g (dot ?P eye2)) (eigh la_ex (free_gram la_ex ?g (dot ?P eye2)))"
    by simp
  have a8: "dot ?P eye2 = phi_sig_proj exA_mid" by (simp add: mat_eval)
  have a9: "block 1 (G_proj exA_mid) 1 = ?g" by (simp add: block_def mat_eval)
  have fixed: "\<exists>c. fst (compute_subcorr la_ex ?g (dot ?P eye2)) = Fin c \<and> 0 \<le> c \<and> c \<le> 1"
    using subspace_correlation_range[where la = la_ex and G = ?g and Phi = eye2 and P = ?P]
      a1 a2 a3 a4 a6 a7 by blast
  have z1: "block 1 (G_proj exA_mid) 0 = ?z" by (simp add: block_def mat_eval)
  have z2: "ent ?z 0 0 = 0" "ent ?z 1 0 = 0" by (simp_all add: ent_def)
  have z3: "ncols ?z = 1 \<and> (\<forall>i<nrows ?z. ent ?z i 0 = 0)"
    using z2 by (simp add: less_Suc_eq numeral_2_eq_2)
  have zero: "fst (compute_subcorr la_ex ?z (phi_sig_proj exA_mid)) = NaN"
    using subspace_correlation_range[where la = la_ex and G = ?z and phi = "phi_sig_proj exA_mid"]
      z3 by blast
  have b1: "wf exD_phi_sig" "wf eye3" by (simp_all add: wf_def)
  have b2: "dot (tr exD_phi_sig) exD_phi_sig = identity (ncols exD_phi_sig)" by (simp add: mat_eval)
  have b3: "nrows eye3 = nrows exD_phi_sig" "ncols eye3 = nrows exD_phi_sig" by simp_all
  have b4: "tr eye3 = eye3" "dot eye3 eye3 = eye3" by (simp_all add: mat_eval)
  have b5: "dot eye3 exD_phi_sig = exD_phi_sig" by (simp add: mat_eval)
  have b6: "eigh_contract (free_gram la_ex eye3 (dot eye3 exD_phi_sig))
        (eigh la_ex (free_gram la_ex eye3 (dot eye3 exD_phi_sig)))"
    unfolding b5 exD_gram by (rule exD_eigh)
  have b7: "ncols eye3 = 1 \<longrightarrow> nrm2 eye3 \<noteq> 0" by simp
  have b8: "ncols eye3 \<noteq> 1 \<longrightarrow> 0 < ncols eye3 \<and> qr_contract eye3 (qr_reduced la_ex eye3)
        \<and> eigh_contract (free_gram la_ex eye3 (dot eye3 exD_phi_sig))
            (eigh la_ex (free_gram la_ex eye3 (dot eye3 exD_phi_sig)))"
    using exD_qr b6 by simp
  have free: "\<exists>c. fst (compute_subcorr la_ex eye3 (dot eye3 exD_phi_sig)) = Fin c \<and> 0 \<le> c \<and> c \<le> 1"
    using subspace_correlation_range[where la = la_ex and G = eye3 and Phi = exD_phi_sig and P = eye3]
      b1 b2 b3 b4 b7 b8 by blast
  show ?thesis
    using a2 a4 a8 a9 a5 fixed z1 z2 zero b2 exD_qr b6 free by blast
qed

end
